theory Spec2Isabelle
  imports Complex_Main
begin

section \<open>Loading one particle species from a Gadget snapshot (read\_snapshot.cpp)\<close>

text \<open>
  The development embeds \<^verbatim>\<open>load_snapshot\<close>, \<^verbatim>\<open>alloc_parts\<close> and their
  loops as HOL functions over an explicit state.  Conventions:
  \<^item> \<^verbatim>\<open>float\<close> and \<^verbatim>\<open>double\<close> values are idealised as \<^typ>\<open>real\<close>: the rounding of
    arithmetic results, infinities and NaN are not represented.  The one place where a
    stored double is copied into a float (line 65) is modelled with its rounding, by
    \<open>to_float\<close> below;
  \<^item> \<^verbatim>\<open>int64_t\<close> quantities are \<^typ>\<open>int\<close> (their overflow needs counts near
    \<open>2^63\<close>); the narrowing of the count to the 32-bit parameter of
    \<^verbatim>\<open>alloc_parts\<close>, the \<^verbatim>\<open>size_t\<close> arithmetic of the request sizes (64 bits,
    \<^verbatim>\<open>sizeof(float) = 4\<close>) and the 32-bit loop counters are written out;
  \<^item> the macros \<^verbatim>\<open>PARTTYPE\<close>, \<^verbatim>\<open>GADGET3\<close> and \<^verbatim>\<open>HELIUM\<close> are parameters of the
    model, and so is the reader object of the GadgetReader library, of which only the
    calls made by the loader appear;
  \<^item> the \<^verbatim>\<open>printf\<close> diagnostics are not part of the state;
  \<^item> leaving the process (\<^verbatim>\<open>exit\<close>) and touching memory outside an array are
    results of the call, next to the returned count.
\<close>

subsection \<open>Header, reader and particle buffer\<close>

text \<open>The fields of the snapshot header that the loader consults.  \<open>mass\<close> is the array
  \<^verbatim>\<open>double mass[6]\<close>, indexed by particle type.\<close>

record gadget_header =
  mass :: "nat \<Rightarrow> real"
  time :: real
  redshift :: real
  BoxSize :: real
  HubbleParam :: real
  Omega0 :: real
  OmegaLambda :: real
  flag_cooling :: int

text \<open>The reader object \<^verbatim>\<open>GadgetReader::GSnap\<close> as the loader sees it: its header, the
  particle count of a type, and the data that \<^verbatim>\<open>GetBlock(tag, dest, count, start, skip)\<close>
  copies to the start of \<open>dest\<close>.\<close>

record GSnap =
  GetHeader :: gadget_header
  GetNpart :: "nat \<Rightarrow> int"
  GetBlock :: "string \<Rightarrow> int \<Rightarrow> int \<Rightarrow> int \<Rightarrow> real list"

text \<open>Build-time configuration: the macro \<^verbatim>\<open>PARTTYPE\<close> and the two \<^verbatim>\<open>#ifdef\<close> switches.\<close>

record config =
  PARTTYPE :: nat
  GADGET3 :: bool
  HELIUM :: bool

text \<open>Modelled from the spec: the macro \<^verbatim>\<open>N_TYPE\<close> is defined in parameters.h, which is
  not among the sources; the specification fixes six particle types.\<close>

definition N_TYPE :: nat where
  "N_TYPE = 6"

text \<open>The structure \<^verbatim>\<open>pdata\<close>: one pointer per field.  \<open>None\<close> is the null pointer,
  \<open>Some xs\<close> an array holding \<open>xs\<close>.\<close>

record pdata =
  Vel :: "real list option"
  Pos :: "real list option"
  Mass :: "real list option"
  U :: "real list option"
  NH0 :: "real list option"
  Ne :: "real list option"
  NHep :: "real list option"
  h :: "real list option"

datatype slot = Vel_slot | Pos_slot | Mass_slot | U_slot | NH0_slot | Ne_slot | NHep_slot | h_slot

fun sel :: "slot \<Rightarrow> pdata \<Rightarrow> real list option" where
  "sel Vel_slot p = Vel p"
| "sel Pos_slot p = Pos p"
| "sel Mass_slot p = Mass p"
| "sel U_slot p = U p"
| "sel NH0_slot p = NH0 p"
| "sel Ne_slot p = Ne p"
| "sel NHep_slot p = NHep p"
| "sel h_slot p = h p"

fun upd :: "slot \<Rightarrow> real list option \<Rightarrow> pdata \<Rightarrow> pdata" where
  "upd Vel_slot v p = p\<lparr>Vel := v\<rparr>"
| "upd Pos_slot v p = p\<lparr>Pos := v\<rparr>"
| "upd Mass_slot v p = p\<lparr>Mass := v\<rparr>"
| "upd U_slot v p = p\<lparr>U := v\<rparr>"
| "upd NH0_slot v p = p\<lparr>NH0 := v\<rparr>"
| "upd Ne_slot v p = p\<lparr>Ne := v\<rparr>"
| "upd NHep_slot v p = p\<lparr>NHep := v\<rparr>"
| "upd h_slot v p = p\<lparr>h := v\<rparr>"

subsection \<open>The state of a call\<close>

text \<open>
  \<open>P\<close> and the six scalars are the objects behind the pointer arguments.  \<open>heap\<close> holds
  the allocator's answers to the coming requests, in order: an answer maps the requested
  number of bytes to \<open>None\<close> (the request fails) or to the value found in the fresh
  cells (C leaves their contents indeterminate); with no answer left a request fails.
  \<open>mallocs\<close> logs every request with its success, \<open>reads\<close> every \<^verbatim>\<open>GetBlock\<close> call
  as (tag, count, start, skip).
\<close>

record world =
  P :: pdata
  atime :: real
  redshift_out :: real
  Hz :: real
  box100 :: real
  h100 :: real
  omegab :: real
  heap :: "(nat \<Rightarrow> real option) list"
  mallocs :: "(nat \<times> bool) list"
  reads :: "(string \<times> int \<times> int \<times> int) list"

datatype result = Returned int | Exited int | Fault

type_synonym step = "(result \<times> world) + world"

definition andthen :: "step \<Rightarrow> (world \<Rightarrow> step) \<Rightarrow> step" where
  "andthen r f = (case r of Inl e \<Rightarrow> Inl e | Inr w \<Rightarrow> f w)"

subsection \<open>Allocation: alloc\_parts\<close>

definition malloc :: "nat \<Rightarrow> world \<Rightarrow> real list option \<times> world" where
  "malloc n w =
     (case heap w of
        [] \<Rightarrow> (None, w\<lparr>mallocs := mallocs w @ [(n, False)]\<rparr>)
      | a # as \<Rightarrow>
          (case a n of
             None \<Rightarrow> (None, w\<lparr>heap := as, mallocs := mallocs w @ [(n, False)]\<rparr>)
           | Some v \<Rightarrow> (Some (replicate (n div 4) v),
                        w\<lparr>heap := as, mallocs := mallocs w @ [(n, True)]\<rparr>)))"

text \<open>\<^verbatim>\<open>np*3*sizeof(float)\<close>: the product \<open>np*3\<close> is taken in 32-bit \<^verbatim>\<open>int\<close>, then
  converted to \<^verbatim>\<open>size_t\<close> and multiplied by 4; \<^verbatim>\<open>np*sizeof(float)\<close> converts \<open>np\<close>
  directly.\<close>

definition to_int32 :: "int \<Rightarrow> int" where
  "to_int32 n = signed_take_bit 31 n"

definition bytes3 :: "int \<Rightarrow> nat" where
  "bytes3 np = nat ((to_int32 (np * 3) * 4) mod 2 ^ 64)"

definition bytes1 :: "int \<Rightarrow> nat" where
  "bytes1 np = nat ((np * 4) mod 2 ^ 64)"

text \<open>The chain \<^verbatim>\<open>(P->f1 = malloc(..)) && (P->f2 = malloc(..)) && ...\<close>: each pointer is
  stored, and the first null pointer ends the chain.\<close>

fun alloc_chain :: "(slot \<times> nat) list \<Rightarrow> world \<Rightarrow> bool \<times> world" where
  "alloc_chain [] w = (True, w)"
| "alloc_chain ((s, n) # rest) w =
     (case malloc n w of
        (p, w') \<Rightarrow>
          (if p = None then (False, w'\<lparr>P := upd s p (P w')\<rparr>)
           else alloc_chain rest (w'\<lparr>P := upd s p (P w')\<rparr>)))"

definition alloc_requests :: "config \<Rightarrow> int \<Rightarrow> (slot \<times> nat) list" where
  "alloc_requests cfg np =
     [(Vel_slot, bytes3 np), (Pos_slot, bytes3 np), (Mass_slot, bytes1 np),
      (U_slot, bytes1 np), (NH0_slot, bytes1 np), (Ne_slot, bytes1 np)]
     @ (if HELIUM cfg then [(NHep_slot, bytes1 np)] else [])
     @ [(h_slot, bytes1 np)]"

definition alloc_parts :: "config \<Rightarrow> int \<Rightarrow> world \<Rightarrow> bool \<times> world" where
  "alloc_parts cfg np w = alloc_chain (alloc_requests cfg np) w"

subsection \<open>Block reads and the loops of load\_snapshot\<close>

text \<open>\<^verbatim>\<open>snap.GetBlock(tag, P->f, count, start, skip)\<close>: the reader's data overwrite the
  start of the array; a null destination or data longer than the array leave the
  array's bounds.\<close>

definition GetBlock_into ::
  "GSnap \<Rightarrow> string \<Rightarrow> slot \<Rightarrow> int \<Rightarrow> int \<Rightarrow> int \<Rightarrow> world \<Rightarrow> step" where
  "GetBlock_into snap tag s count start skip w =
     (let d = GetBlock snap tag count start skip;
          w' = w\<lparr>reads := reads w @ [(tag, count, start, skip)]\<rparr>
      in case sel s (P w') of
           None \<Rightarrow> Inl (Fault, w')
         | Some buf \<Rightarrow>
             (if length d \<le> length buf
              then Inr (w'\<lparr>P := upd s (Some (d @ drop (length d) buf)) (P w')\<rparr>)
              else Inl (Fault, w')))"

text \<open>A loop \<^verbatim>\<open>for(int i=0; i<NumPart; i++)\<close> with a 64-bit bound visits the indices below
  the bound that fit a 32-bit counter; it can only be left through its condition when the
  bound itself fits.\<close>

definition loop_indices :: "int \<Rightarrow> nat list" where
  "loop_indices n = [0..<nat (min n 2147483648)]"

definition loop_overflows :: "int \<Rightarrow> bool" where
  "loop_overflows n = (n > 2147483647)"

text \<open>The conversion of a double to \<^verbatim>\<open>float\<close> (IEEE binary32, round to nearest, ties to
  even).  \<open>float_exponent a\<close> is the exponent of the binade of \<open>a\<close>, at least that of the
  subnormal numbers; the result is the multiple of \<open>2 ^ (exponent - 23)\<close> nearest to the
  argument.  A value beyond \<open>float_max\<close>, the largest finite float, becomes an infinity in
  the program; the reals do not hold it, and the function is meant for arguments within
  the range.\<close>

definition round_even :: "real \<Rightarrow> int" where
  "round_even y =
     (let f = \<lfloor>y\<rfloor>; d = y - of_int f
      in if d < 1 / 2 then f else if 1 / 2 < d then f + 1 else if even f then f else f + 1)"

definition float_exponent :: "real \<Rightarrow> int" where
  "float_exponent a =
     (case find (\<lambda>e. 2 powi e \<le> a) (rev [- 125..127]) of Some e \<Rightarrow> e | None \<Rightarrow> - 126)"

definition to_float :: "real \<Rightarrow> real" where
  "to_float x =
     (let u = 2 powi (float_exponent \<bar>x\<bar> - 23) in of_int (round_even (x / u)) * u)"

definition float_max :: real where
  "float_max = (2 ^ 24 - 1) * 2 ^ 104"

primrec fill_Mass :: "real \<Rightarrow> nat list \<Rightarrow> real list \<Rightarrow> real list option" where
  "fill_Mass v [] m = Some m"
| "fill_Mass v (i # is) m = (if i < length m then fill_Mass v is (m[i := v]) else None)"

datatype verdict = Uniform | Changed nat | Outside

primrec check_Mass :: "nat list \<Rightarrow> real list \<Rightarrow> verdict" where
  "check_Mass [] m = Uniform"
| "check_Mass (i # is) m =
     (if i < length m
      then (if m ! i \<noteq> m ! 0 then Changed i else check_Mass is m)
      else Outside)"

text \<open>\<^verbatim>\<open>Ne[k] += g(h[k])\<close> for the visited \<open>k\<close>; \<open>g\<close> is the identity in the first loop
  and doubling in the second.\<close>

primrec add_into :: "(real \<Rightarrow> real) \<Rightarrow> nat list \<Rightarrow> real list \<Rightarrow> real list \<Rightarrow> real list option" where
  "add_into g [] ne hs = Some ne"
| "add_into g (k # ks) ne hs =
     (if k < length ne \<and> k < length hs
      then add_into g ks (ne[k := ne ! k + g (hs ! k)]) hs
      else None)"

text \<open>The skip mask of the MASS read: \<^verbatim>\<open>skip -= 1<<i\<close> for every type with a header mass.\<close>

primrec skip_loop :: "gadget_header \<Rightarrow> nat list \<Rightarrow> int \<Rightarrow> int" where
  "skip_loop hdr [] skip = skip"
| "skip_loop hdr (i # is) skip =
     skip_loop hdr is (if mass hdr i \<noteq> 0 then skip - 2 ^ i else skip)"

definition type_mask :: "config \<Rightarrow> int" where
  "type_mask cfg = 2 ^ N_TYPE - 1 - 2 ^ PARTTYPE cfg"

definition mass_skip :: "config \<Rightarrow> gadget_header \<Rightarrow> int" where
  "mass_skip cfg hdr = skip_loop hdr [0..<N_TYPE] (type_mask cfg)"

text \<open>Lines 63--73: the particle masses.  The test of line 63 is on the header's double; the
  assignment of line 65 stores it as a float.\<close>

definition load_Mass :: "config \<Rightarrow> GSnap \<Rightarrow> int \<Rightarrow> int \<Rightarrow> world \<Rightarrow> step" where
  "load_Mass cfg snap StartPart NumPart w =
     (if mass (GetHeader snap) (PARTTYPE cfg) \<noteq> 0
      then (case Mass (P w) of
              None \<Rightarrow> (if loop_indices NumPart = [] then Inr w else Inl (Fault, w))
            | Some m \<Rightarrow>
                (case fill_Mass (to_float (mass (GetHeader snap) (PARTTYPE cfg)))
                        (loop_indices NumPart) m of
                   None \<Rightarrow> Inl (Fault, w)
                 | Some m' \<Rightarrow>
                     (if loop_overflows NumPart then Inl (Fault, w)
                      else Inr (w\<lparr>P := (P w)\<lparr>Mass := Some m'\<rparr>\<rparr>))))
      else GetBlock_into snap ''MASS'' Mass_slot NumPart StartPart
             (mass_skip cfg (GetHeader snap)) w)"

text \<open>Lines 74--79: the uniformity check and the baryon fraction.\<close>

definition check_and_omegab :: "GSnap \<Rightarrow> int \<Rightarrow> world \<Rightarrow> step" where
  "check_and_omegab snap NumPart w =
     (case Mass (P w) of
        None \<Rightarrow> Inl (Fault, w)
      | Some m \<Rightarrow>
          (case check_Mass (loop_indices NumPart) m of
             Outside \<Rightarrow> Inl (Fault, w)
           | Changed i \<Rightarrow> Inl (Exited 0, w)
           | Uniform \<Rightarrow>
               (if loop_overflows NumPart \<or> m = [] then Inl (Fault, w)
                else Inr (w\<lparr>omegab := m ! 0 / (m ! 0 + mass (GetHeader snap) 1)
                                        * Omega0 (GetHeader snap)\<rparr>))))"

text \<open>Lines 97--99 and 101--103: \<open>Ne\<close> accumulates the scratch array held in \<open>h\<close>.\<close>

definition accumulate_Ne :: "(real \<Rightarrow> real) \<Rightarrow> int \<Rightarrow> world \<Rightarrow> step" where
  "accumulate_Ne g NumPart w =
     (case (Ne (P w), h (P w)) of
        (Some ne, Some hs) \<Rightarrow>
          (case add_into g (loop_indices NumPart) ne hs of
             None \<Rightarrow> Inl (Fault, w)
           | Some ne' \<Rightarrow>
               (if loop_overflows NumPart then Inl (Fault, w)
                else Inr (w\<lparr>P := (P w)\<lparr>Ne := Some ne'\<rparr>\<rparr>)))
      | _ \<Rightarrow> (if loop_indices NumPart = [] then Inr w else Inl (Fault, w)))"

text \<open>Lines 93--106: the free electron fraction, summed from three blocks or read from one.\<close>

definition load_Ne :: "config \<Rightarrow> GSnap \<Rightarrow> int \<Rightarrow> int \<Rightarrow> world \<Rightarrow> step" where
  "load_Ne cfg snap StartPart NumPart w =
     (if \<not> GADGET3 cfg
      then andthen (GetBlock_into snap ''NHP '' Ne_slot NumPart StartPart 0 w) (\<lambda>w.
           andthen (GetBlock_into snap ''NHEP'' h_slot NumPart StartPart 0 w) (\<lambda>w.
           andthen (accumulate_Ne (\<lambda>x. x) NumPart w) (\<lambda>w.
           andthen (GetBlock_into snap ''NHEQ'' h_slot NumPart StartPart 0 w) (\<lambda>w.
           accumulate_Ne (\<lambda>x. 2 * x) NumPart w))))
      else GetBlock_into snap ''NE  '' Ne_slot NumPart StartPart 0 w)"

text \<open>Lines 86--113: the blocks read when the header's cooling flag is set.\<close>

definition load_cooling :: "config \<Rightarrow> GSnap \<Rightarrow> int \<Rightarrow> int \<Rightarrow> world \<Rightarrow> step" where
  "load_cooling cfg snap StartPart NumPart w =
     andthen (load_Ne cfg snap StartPart NumPart w) (\<lambda>w.
     andthen
       (if HELIUM cfg then GetBlock_into snap ''NHE '' NHep_slot NumPart StartPart 0 w
        else Inr w) (\<lambda>w.
     GetBlock_into snap ''NH  '' NH0_slot NumPart StartPart 0 w))"

text \<open>Lines 81--116: the fields of the gas particles.\<close>

definition load_gas :: "config \<Rightarrow> GSnap \<Rightarrow> int \<Rightarrow> int \<Rightarrow> world \<Rightarrow> step" where
  "load_gas cfg snap StartPart NumPart w =
     (if PARTTYPE cfg = 0
      then andthen (GetBlock_into snap ''U   '' U_slot NumPart StartPart 0 w) (\<lambda>w.
           andthen (if flag_cooling (GetHeader snap) \<noteq> 0
                    then load_cooling cfg snap StartPart NumPart w else Inr w) (\<lambda>w.
           GetBlock_into snap ''HSML'' h_slot NumPart StartPart 0 w))
      else Inr w)"

subsection \<open>load\_snapshot\<close>

text \<open>Lines 35--39: the scalars taken from the header.\<close>

definition header_scalars :: "GSnap \<Rightarrow> world \<Rightarrow> world" where
  "header_scalars snap w =
     (let w1 = w\<lparr>atime := time (GetHeader snap)\<rparr>;
          w2 = w1\<lparr>redshift_out := redshift (GetHeader snap)\<rparr>;
          w3 = w2\<lparr>box100 := BoxSize (GetHeader snap)\<rparr>;
          w4 = w3\<lparr>h100 := HubbleParam (GetHeader snap)\<rparr>
      in w4\<lparr>Hz := 100 * h100 w4
                    * sqrt (1 + Omega0 (GetHeader snap) * (1 / atime w4 - 1)
                              + OmegaLambda (GetHeader snap) * ((atime w4)\<^sup>2 - 1))
                    / atime w4\<rparr>)"

text \<open>Lines 40--43: the number of particles to load.\<close>

definition resolve_NumPart :: "config \<Rightarrow> GSnap \<Rightarrow> int \<Rightarrow> int \<Rightarrow> int" where
  "resolve_NumPart cfg snap StartPart MaxRead =
     (if MaxRead > 0 then min MaxRead (GetNpart snap (PARTTYPE cfg) - StartPart)
      else GetNpart snap (PARTTYPE cfg) - StartPart)"

text \<open>Lines 59--116: everything after the allocation.\<close>

definition load_blocks :: "config \<Rightarrow> GSnap \<Rightarrow> int \<Rightarrow> int \<Rightarrow> world \<Rightarrow> step" where
  "load_blocks cfg snap StartPart NumPart w =
     andthen (GetBlock_into snap ''POS '' Pos_slot NumPart StartPart (type_mask cfg) w) (\<lambda>w.
     andthen (GetBlock_into snap ''VEL '' Vel_slot NumPart StartPart (type_mask cfg) w) (\<lambda>w.
     andthen (load_Mass cfg snap StartPart NumPart w) (\<lambda>w.
     andthen (check_and_omegab snap NumPart w) (\<lambda>w.
     load_gas cfg snap StartPart NumPart w))))"

definition load_snapshot :: "config \<Rightarrow> GSnap \<Rightarrow> int \<Rightarrow> int \<Rightarrow> world \<Rightarrow> result \<times> world" where
  "load_snapshot cfg snap StartPart MaxRead w0 =
     (let w = header_scalars snap w0;
          NumPart = resolve_NumPart cfg snap StartPart MaxRead
      in if NumPart = 0 then (Returned 0, w)
         else (case alloc_parts cfg (to_int32 NumPart) w of
                 (False, w') \<Rightarrow> (Exited 1, w')
               | (True, w') \<Rightarrow>
                   (case load_blocks cfg snap StartPart NumPart w' of
                      Inl stop \<Rightarrow> stop
                    | Inr w'' \<Rightarrow> (Returned NumPart, w''))))"

subsection \<open>Auxiliary notions for the proofs\<close>

text \<open>The five scalars that are copied or computed from the header alone.\<close>

definition header_outputs :: "world \<Rightarrow> real \<times> real \<times> real \<times> real \<times> real" where
  "header_outputs w = (atime w, redshift_out w, Hz w, box100 w, h100 w)"

text \<open>\<open>keeps g w r\<close>: the outcome \<open>r\<close> of a step started in \<open>w\<close> leaves the observation
  \<open>g\<close> as it was, however the step ends.  \<open>stops_in R r\<close>: if the step ends the call, it
  does so with a result in \<open>R\<close>.\<close>

definition keeps :: "(world \<Rightarrow> 'a) \<Rightarrow> world \<Rightarrow> step \<Rightarrow> bool" where
  "keeps g w r = (case r of Inl e \<Rightarrow> g (snd e) = g w | Inr w' \<Rightarrow> g w' = g w)"

definition stops_in :: "result set \<Rightarrow> step \<Rightarrow> bool" where
  "stops_in R r = (case r of Inl e \<Rightarrow> fst e \<in> R | Inr w' \<Rightarrow> True)"

definition gas_tags :: "string set" where
  "gas_tags = {''U   '', ''NHP '', ''NHEP'', ''NHEQ'', ''NE  '', ''NHE '', ''NH  '', ''HSML''}"

definition gas_slots :: "slot set" where
  "gas_slots = {U_slot, Ne_slot, h_slot, NHep_slot, NH0_slot}"

text \<open>The MASS reads in the log, and the allocation requests a call adds to its log.\<close>

definition MASS_reads :: "world \<Rightarrow> (string \<times> int \<times> int \<times> int) list" where
  "MASS_reads w = filter (\<lambda>e. fst e = ''MASS'') (reads w)"

definition new_mallocs :: "world \<Rightarrow> world \<Rightarrow> (nat \<times> bool) list" where
  "new_mallocs w w' = drop (length (mallocs w)) (mallocs w')"

text \<open>The pointer fields of \<open>P\<close> as a function of the slot.\<close>

definition field_of :: "world \<Rightarrow> slot \<Rightarrow> real list option" where
  "field_of w s = sel s (P w)"

text \<open>The array lengths \<^verbatim>\<open>alloc_parts\<close> provides for \<open>n\<close> particles, and a state whose
  arrays have them.\<close>

definition capacity :: "slot \<Rightarrow> nat \<Rightarrow> nat" where
  "capacity s n = (if s = Pos_slot \<or> s = Vel_slot then 3 * n else n)"

definition sized :: "config \<Rightarrow> nat \<Rightarrow> world \<Rightarrow> bool" where
  "sized cfg n w \<longleftrightarrow>
     (\<forall>s. (s = NHep_slot \<longrightarrow> HELIUM cfg) \<longrightarrow> (\<exists>b. field_of w s = Some b \<and> length b = capacity s n))"

text \<open>The (tag, skip) pairs of the \<^verbatim>\<open>GetBlock\<close> calls of a load that runs to its end, in
  order, and the fields such a load writes.\<close>

definition Ne_plan :: "config \<Rightarrow> (string \<times> int) list" where
  "Ne_plan cfg =
     (if \<not> GADGET3 cfg then [(''NHP '', 0), (''NHEP'', 0), (''NHEQ'', 0)] else [(''NE  '', 0)])"

definition cooling_plan :: "config \<Rightarrow> (string \<times> int) list" where
  "cooling_plan cfg = Ne_plan cfg @ (if HELIUM cfg then [(''NHE '', 0)] else []) @ [(''NH  '', 0)]"

definition gas_plan :: "config \<Rightarrow> gadget_header \<Rightarrow> (string \<times> int) list" where
  "gas_plan cfg hdr =
     (if PARTTYPE cfg = 0
      then [(''U   '', 0)] @ (if flag_cooling hdr \<noteq> 0 then cooling_plan cfg else [])
           @ [(''HSML'', 0)]
      else [])"

definition mass_plan :: "config \<Rightarrow> gadget_header \<Rightarrow> (string \<times> int) list" where
  "mass_plan cfg hdr =
     (if mass hdr (PARTTYPE cfg) \<noteq> 0 then [] else [(''MASS'', mass_skip cfg hdr)])"

definition read_plan :: "config \<Rightarrow> gadget_header \<Rightarrow> (string \<times> int) list" where
  "read_plan cfg hdr =
     [(''POS '', type_mask cfg), (''VEL '', type_mask cfg)] @ mass_plan cfg hdr @ gas_plan cfg hdr"

definition logged :: "int \<Rightarrow> int \<Rightarrow> (string \<times> int) list \<Rightarrow> (string \<times> int \<times> int \<times> int) list" where
  "logged n S plan = map (\<lambda>e. (fst e, n, S, snd e)) plan"

definition populated :: "config \<Rightarrow> gadget_header \<Rightarrow> slot set" where
  "populated cfg hdr =
     {Pos_slot, Vel_slot, Mass_slot}
     \<union> (if PARTTYPE cfg = 0
        then {U_slot, h_slot}
             \<union> (if flag_cooling hdr \<noteq> 0
                then {Ne_slot, NH0_slot} \<union> (if HELIUM cfg then {NHep_slot} else {})
                else {})
        else {})"

text \<open>Floats per particle in a block, and the property that every block a load of \<open>n\<close>
  particles from \<open>S\<close> reads delivers all of them.\<close>

definition block_width :: "string \<Rightarrow> nat" where
  "block_width tag = (if tag = ''POS '' \<or> tag = ''VEL '' then 3 else 1)"

definition full_reads :: "config \<Rightarrow> GSnap \<Rightarrow> int \<Rightarrow> int \<Rightarrow> bool" where
  "full_reads cfg snap S n \<longleftrightarrow>
     (\<forall>e\<in>set (read_plan cfg (GetHeader snap)).
        length (GetBlock snap (fst e) n S (snd e)) = block_width (fst e) * nat n)"

text \<open>What the fields hold after such a load, in terms of the data delivered.\<close>

definition mass_data :: "config \<Rightarrow> GSnap \<Rightarrow> int \<Rightarrow> int \<Rightarrow> real list" where
  "mass_data cfg snap S n =
     (if mass (GetHeader snap) (PARTTYPE cfg) \<noteq> 0
      then replicate (nat n) (to_float (mass (GetHeader snap) (PARTTYPE cfg)))
      else GetBlock snap ''MASS'' n S (mass_skip cfg (GetHeader snap)))"

definition Ne_data :: "config \<Rightarrow> GSnap \<Rightarrow> int \<Rightarrow> int \<Rightarrow> real list" where
  "Ne_data cfg snap S n =
     (if GADGET3 cfg then GetBlock snap ''NE  '' n S 0
      else map (\<lambda>k. GetBlock snap ''NHP '' n S 0 ! k + GetBlock snap ''NHEP'' n S 0 ! k
                      + 2 * GetBlock snap ''NHEQ'' n S 0 ! k) [0..<nat n])"

fun field_data :: "config \<Rightarrow> GSnap \<Rightarrow> int \<Rightarrow> int \<Rightarrow> slot \<Rightarrow> real list" where
  "field_data cfg snap S n Pos_slot = GetBlock snap ''POS '' n S (type_mask cfg)"
| "field_data cfg snap S n Vel_slot = GetBlock snap ''VEL '' n S (type_mask cfg)"
| "field_data cfg snap S n Mass_slot = mass_data cfg snap S n"
| "field_data cfg snap S n U_slot = GetBlock snap ''U   '' n S 0"
| "field_data cfg snap S n NH0_slot = GetBlock snap ''NH  '' n S 0"
| "field_data cfg snap S n Ne_slot = Ne_data cfg snap S n"
| "field_data cfg snap S n NHep_slot = GetBlock snap ''NHE '' n S 0"
| "field_data cfg snap S n h_slot = GetBlock snap ''HSML'' n S 0"

subsection \<open>A reader over stored blocks\<close>

text \<open>Modelled from the spec: \<^verbatim>\<open>GSnap::GetBlock\<close> is declared in gadgetreader.hpp, which is
  not among the sources.  The specification describes the reader as copying a tag's data
  for a given particle-index range, and as being told through a bitmask which of the six
  type slots to skip.  \<open>disk tag t\<close> is the stored data of type \<open>t\<close> in block \<open>tag\<close>;
  the range is counted in particles over the types that are not skipped.\<close>

definition block_slice ::
  "(string \<Rightarrow> nat \<Rightarrow> real list) \<Rightarrow> string \<Rightarrow> int \<Rightarrow> int \<Rightarrow> int \<Rightarrow> real list" where
  "block_slice disk tag count start skip =
     take (block_width tag * nat count)
       (drop (block_width tag * nat start)
          (concat (map (disk tag) (filter (\<lambda>t. \<not> bit skip t) [0..<N_TYPE]))))"

subsection \<open>Example inputs\<close>

definition cfg_gas :: config where
  "cfg_gas = \<lparr>PARTTYPE = 0, GADGET3 = False, HELIUM = False\<rparr>"

definition no_parts :: pdata where
  "no_parts = \<lparr>Vel = None, Pos = None, Mass = None, U = None, NH0 = None, Ne = None,
      NHep = None, h = None\<rparr>"

definition fresh_world :: "(nat \<Rightarrow> real option) list \<Rightarrow> world" where
  "fresh_world hp = \<lparr>P = no_parts, atime = 0, redshift_out = 0, Hz = 0, box100 = 0, h100 = 0,
      omegab = 0, heap = hp, mallocs = [], reads = []\<rparr>"

text \<open>An allocator answer that grants up to one megabyte.\<close>

definition roomy :: "nat \<Rightarrow> real option" where
  "roomy n = (if n \<le> 1048576 then Some 0 else None)"

text \<open>The double nearest to 0.1, as the gas mass of a header at the present epoch.\<close>

definition double_tenth :: real where
  "double_tenth = 3602879701896397 / 36028797018963968"

definition hdr_today :: gadget_header where
  "hdr_today = \<lparr>mass = (\<lambda>t. if t = 0 then double_tenth else if t = 1 then 9 / 10 else 0),
      time = 1, redshift = 0, BoxSize = 60, HubbleParam = 7 / 10, Omega0 = 3 / 10,
      OmegaLambda = 7 / 10, flag_cooling = 1\<rparr>"

definition disk_two :: "string \<Rightarrow> nat \<Rightarrow> real list" where
  "disk_two tag t =
     (if t \<noteq> 0 then []
      else if tag = ''POS '' then [1, 2, 3, 4, 5, 6]
      else if tag = ''VEL '' then [7, 8, 9, 10, 11, 12]
      else if tag = ''NHP '' then [1 / 10, 1 / 10]
      else if tag = ''NHEP'' then [5 / 100, 5 / 100]
      else if tag = ''NHEQ'' then [2 / 100, 2 / 100]
      else if tag = ''MASS'' then [1 / 10, 1 / 10]
      else [13, 14])"

definition snap_two :: GSnap where
  "snap_two = \<lparr>GetHeader = hdr_today, GetNpart = (\<lambda>t. if t = 0 then 2 else 0),
      GetBlock = block_slice disk_two\<rparr>"

text \<open>The same two particles with their masses stored in the MASS block instead of the
  header (0.1 each, a stored value being taken as the real number it stands for).\<close>

definition hdr_disk :: gadget_header where
  "hdr_disk = hdr_today\<lparr>mass := (\<lambda>t. if t = 1 then 9 / 10 else 0)\<rparr>"

definition snap_disk :: GSnap where
  "snap_disk = snap_two\<lparr>GetHeader := hdr_disk\<rparr>"

text \<open>A hundred gas particles whose stored masses change after the fiftieth, and the same
  blocks under a header that gives the gas mass itself.\<close>

definition disk_hundred :: "string \<Rightarrow> nat \<Rightarrow> real list" where
  "disk_hundred tag t =
     (if t \<noteq> 0 then []
      else if tag = ''POS '' \<or> tag = ''VEL '' then map real [0..<300]
      else if tag = ''MASS'' then replicate 50 1 @ replicate 50 2
      else map real [0..<100])"

definition snap_hundred :: GSnap where
  "snap_hundred = \<lparr>GetHeader = hdr_disk, GetNpart = (\<lambda>t. if t = 0 then 100 else 0),
      GetBlock = block_slice disk_hundred\<rparr>"

definition snap_hundred_uniform :: GSnap where
  "snap_hundred_uniform = snap_hundred\<lparr>GetHeader := hdr_today\<rparr>"

section \<open>Basic facts about the steps\<close>

lemma sel_upd: "sel s (upd t v p) = (if s = t then v else sel s p)"
  by (cases s; cases t; simp)

lemma andthen_Inr: "andthen r f = Inr w'' \<longleftrightarrow> (\<exists>w'. r = Inr w' \<and> f w' = Inr w'')"
  by (cases r) (auto simp: andthen_def)

lemma andthen_Inl: "andthen r f = Inl e \<longleftrightarrow> r = Inl e \<or> (\<exists>w'. r = Inr w' \<and> f w' = Inl e)"
  by (cases r) (auto simp: andthen_def)

lemma keeps_andthen:
  "keeps g w r \<Longrightarrow> (\<And>w'. r = Inr w' \<Longrightarrow> keeps g w' (f w')) \<Longrightarrow> keeps g w (andthen r f)"
  by (cases r) (auto simp: keeps_def andthen_def split: sum.splits)

lemma keeps_Inr: "keeps g w (Inr w)"
  by (simp add: keeps_def)

lemma keeps_if:
  "(c \<Longrightarrow> keeps g w a) \<Longrightarrow> (\<not> c \<Longrightarrow> keeps g w b) \<Longrightarrow> keeps g w (if c then a else b)"
  by simp

lemma keepsD_Inr: "keeps g w r \<Longrightarrow> r = Inr w' \<Longrightarrow> g w' = g w"
  by (simp add: keeps_def)

lemma keepsD_Inl: "keeps g w r \<Longrightarrow> r = Inl (x, w') \<Longrightarrow> g w' = g w"
  by (simp add: keeps_def)

lemma stops_in_andthen:
  "stops_in R r \<Longrightarrow> (\<And>w'. r = Inr w' \<Longrightarrow> stops_in R (f w')) \<Longrightarrow> stops_in R (andthen r f)"
  by (cases r) (auto simp: stops_in_def andthen_def)

lemma stops_in_Inr: "stops_in R (Inr w)"
  by (simp add: stops_in_def)

lemma stops_in_if:
  "(c \<Longrightarrow> stops_in R a) \<Longrightarrow> (\<not> c \<Longrightarrow> stops_in R b) \<Longrightarrow> stops_in R (if c then a else b)"
  by simp

subsection \<open>Block reads\<close>

lemma GetBlock_into_Inr:
  "GetBlock_into snap tag s c st k w = Inr w' \<longleftrightarrow>
     (\<exists>buf. sel s (P w) = Some buf \<and> length (GetBlock snap tag c st k) \<le> length buf
        \<and> w' = w\<lparr>reads := reads w @ [(tag, c, st, k)],
                 P := upd s (Some (GetBlock snap tag c st k
                        @ drop (length (GetBlock snap tag c st k)) buf)) (P w)\<rparr>)"
  by (auto simp: GetBlock_into_def Let_def split: option.splits)

lemma GetBlock_into_Inl:
  "GetBlock_into snap tag s c st k w = Inl e \<Longrightarrow>
     e = (Fault, w\<lparr>reads := reads w @ [(tag, c, st, k)]\<rparr>)"
  by (auto simp: GetBlock_into_def Let_def split: option.splits if_splits)

lemma keeps_GetBlock_into:
  assumes r: "\<And>w. g (w\<lparr>reads := reads w @ [(tag, c, st, k)]\<rparr>) = g w"
    and p: "\<And>w x. g (w\<lparr>P := upd s x (P w)\<rparr>) = g w"
  shows "keeps g w (GetBlock_into snap tag s c st k w)"
proof -
  let ?w = "w\<lparr>reads := reads w @ [(tag, c, st, k)]\<rparr>"
  have 1: "g ?w = g w" by (rule r)
  have 2: "g (?w\<lparr>P := upd s x (P ?w)\<rparr>) = g w" for x
    using p [where w = ?w and x = x] 1 by simp
  show ?thesis
    using 1 2 by (auto simp: keeps_def GetBlock_into_def Let_def split: option.splits)
qed

lemma stops_in_GetBlock_into: "Fault \<in> R \<Longrightarrow> stops_in R (GetBlock_into snap tag s c st k w)"
  by (auto simp: stops_in_def GetBlock_into_def Let_def split: option.splits sum.splits)

subsection \<open>The loops\<close>

lemma set_loop_indices: "set (loop_indices n) = {i. int i < n \<and> i < 2147483648}"
  by (auto simp: loop_indices_def)

lemma set_loop_indices_fits:
  "\<not> loop_overflows n \<Longrightarrow> set (loop_indices n) = {i. int i < n}"
  by (auto simp: loop_indices_def loop_overflows_def)

lemma distinct_loop_indices: "distinct (loop_indices n)"
  by (simp add: loop_indices_def)

lemma loop_indices_Nil: "loop_indices n = [] \<longleftrightarrow> n \<le> 0"
  by (auto simp: loop_indices_def)

lemma fill_Mass_SomeD:
  "fill_Mass v js m = Some m' \<Longrightarrow>
     length m' = length m \<and> (\<forall>i\<in>set js. i < length m \<and> m' ! i = v)
     \<and> (\<forall>i. i \<notin> set js \<longrightarrow> m' ! i = m ! i)"
proof (induction js arbitrary: m)
  case Nil
  then show ?case by simp
next
  case (Cons j js)
  from Cons.prems have j: "j < length m" and r: "fill_Mass v js (m[j := v]) = Some m'"
    by (auto split: if_splits)
  from Cons.IH [OF r] have
    l: "length m' = length m" and
    a: "\<forall>i\<in>set js. i < length m \<and> m' ! i = v" and
    b: "\<forall>i. i \<notin> set js \<longrightarrow> m' ! i = (m[j := v]) ! i"
    by auto
  have "m' ! j = v"
  proof (cases "j \<in> set js")
    case True
    with a show ?thesis by blast
  next
    case False
    with b j show ?thesis by simp
  qed
  with l a b j show ?case by auto
qed

lemma fill_Mass_ok: "\<forall>i\<in>set js. i < length m \<Longrightarrow> fill_Mass v js m \<noteq> None"
  by (induction js arbitrary: m) auto

lemma check_Mass_Uniform:
  "check_Mass js m = Uniform \<longleftrightarrow> (\<forall>i\<in>set js. i < length m \<and> m ! i = m ! 0)"
  by (induction js) auto

lemma check_Mass_Changed:
  "check_Mass js m = Changed i \<Longrightarrow> i \<in> set js \<and> i < length m \<and> m ! i \<noteq> m ! 0"
  by (induction js) (auto split: if_splits)

lemma check_Mass_Outside: "check_Mass js m = Outside \<Longrightarrow> \<exists>i\<in>set js. length m \<le> i"
  by (induction js) (auto split: if_splits)

lemma add_into_SomeD:
  "add_into g ks ne hs = Some ne' \<Longrightarrow> distinct ks \<Longrightarrow>
     length ne' = length ne
     \<and> (\<forall>k\<in>set ks. k < length ne \<and> k < length hs \<and> ne' ! k = ne ! k + g (hs ! k))
     \<and> (\<forall>k. k \<notin> set ks \<longrightarrow> ne' ! k = ne ! k)"
proof (induction ks arbitrary: ne)
  case Nil
  then show ?case by simp
next
  case (Cons j ks)
  let ?ne = "ne[j := ne ! j + g (hs ! j)]"
  from Cons.prems have j: "j < length ne" "j < length hs"
    and r: "add_into g ks ?ne hs = Some ne'" and d: "distinct ks" and n: "j \<notin> set ks"
    by (auto split: if_splits)
  from Cons.IH [OF r d] have
    l: "length ne' = length ne" and
    a: "\<forall>k\<in>set ks. k < length ne \<and> k < length hs \<and> ne' ! k = ?ne ! k + g (hs ! k)" and
    b: "\<forall>k. k \<notin> set ks \<longrightarrow> ne' ! k = ?ne ! k"
    by auto
  from b n j have "ne' ! j = ne ! j + g (hs ! j)" by simp
  moreover have "ne' ! k = ne ! k + g (hs ! k)" if "k \<in> set ks" for k
  proof -
    from that n have "k \<noteq> j" by auto
    then have "?ne ! k = ne ! k" by simp
    with a that show ?thesis by simp
  qed
  moreover from b have "\<forall>k. k \<notin> set (j # ks) \<longrightarrow> ne' ! k = ne ! k" by auto
  ultimately show ?case using l a j by auto
qed

lemma add_into_ok:
  "\<forall>k\<in>set ks. k < length ne \<and> k < length hs \<Longrightarrow> add_into g ks ne hs \<noteq> None"
  by (induction ks arbitrary: ne) auto

subsection \<open>What the stages leave alone, and how they can end the call\<close>

lemma keeps_load_Mass:
  assumes r: "\<And>w e. fst e = ''MASS'' \<Longrightarrow> g (w\<lparr>reads := reads w @ [e]\<rparr>) = g w"
    and p: "\<And>w x. g (w\<lparr>P := upd Mass_slot x (P w)\<rparr>) = g w"
  shows "keeps g w (load_Mass cfg snap st n w)"
proof (cases "mass (GetHeader snap) (PARTTYPE cfg) \<noteq> 0")
  case True
  have "g (w\<lparr>P := (P w)\<lparr>Mass := x\<rparr>\<rparr>) = g w" for x
    using p [where w = w and x = x] by simp
  with True show ?thesis
    by (auto simp: load_Mass_def keeps_def split: option.splits)
next
  case False
  have "keeps g w (GetBlock_into snap ''MASS'' Mass_slot n st (mass_skip cfg (GetHeader snap)) w)"
    by (rule keeps_GetBlock_into) (rule r, simp, rule p)
  with False show ?thesis
    by (simp add: load_Mass_def)
qed

lemma keeps_check_and_omegab:
  "(\<And>w x. g (w\<lparr>omegab := x\<rparr>) = g w) \<Longrightarrow> keeps g w (check_and_omegab snap n w)"
  unfolding check_and_omegab_def
  by (auto simp: keeps_def split: option.splits verdict.splits)

lemma keeps_accumulate_Ne:
  assumes p: "\<And>w x. g (w\<lparr>P := upd Ne_slot x (P w)\<rparr>) = g w"
  shows "keeps g w (accumulate_Ne f n w)"
proof -
  have "g (w\<lparr>P := (P w)\<lparr>Ne := x\<rparr>\<rparr>) = g w" for x
    using p [where w = w and x = x] by simp
  then show ?thesis
    by (auto simp: accumulate_Ne_def keeps_def split: option.splits)
qed

lemma keeps_load_Ne:
  assumes r: "\<And>w e. fst e \<in> gas_tags \<Longrightarrow> g (w\<lparr>reads := reads w @ [e]\<rparr>) = g w"
    and p: "\<And>w s x. s \<in> gas_slots \<Longrightarrow> g (w\<lparr>P := upd s x (P w)\<rparr>) = g w"
  shows "keeps g w (load_Ne cfg snap st n w)"
  unfolding load_Ne_def
  by (intro keeps_andthen keeps_if keeps_GetBlock_into keeps_accumulate_Ne keeps_Inr r p)
     (simp_all add: gas_tags_def gas_slots_def)

lemma keeps_load_cooling:
  assumes r: "\<And>w e. fst e \<in> gas_tags \<Longrightarrow> g (w\<lparr>reads := reads w @ [e]\<rparr>) = g w"
    and p: "\<And>w s x. s \<in> gas_slots \<Longrightarrow> g (w\<lparr>P := upd s x (P w)\<rparr>) = g w"
  shows "keeps g w (load_cooling cfg snap st n w)"
  unfolding load_cooling_def
  by (intro keeps_andthen keeps_if keeps_GetBlock_into keeps_load_Ne keeps_Inr r p)
     (simp_all add: gas_tags_def gas_slots_def)

lemma keeps_load_gas:
  assumes r: "\<And>w e. fst e \<in> gas_tags \<Longrightarrow> g (w\<lparr>reads := reads w @ [e]\<rparr>) = g w"
    and p: "\<And>w s x. s \<in> gas_slots \<Longrightarrow> g (w\<lparr>P := upd s x (P w)\<rparr>) = g w"
  shows "keeps g w (load_gas cfg snap st n w)"
  unfolding load_gas_def
  by (intro keeps_andthen keeps_if keeps_GetBlock_into keeps_load_cooling keeps_Inr r p)
     (simp_all add: gas_tags_def gas_slots_def)

lemma keeps_load_blocks:
  assumes r: "\<And>w e. g (w\<lparr>reads := reads w @ [e]\<rparr>) = g w"
    and p: "\<And>w s x. g (w\<lparr>P := upd s x (P w)\<rparr>) = g w"
    and ob: "\<And>w x. g (w\<lparr>omegab := x\<rparr>) = g w"
  shows "keeps g w (load_blocks cfg snap st n w)"
  unfolding load_blocks_def
  by (intro keeps_andthen keeps_GetBlock_into keeps_load_Mass keeps_check_and_omegab
        keeps_load_gas r p ob)

lemma stops_in_load_Mass: "Fault \<in> R \<Longrightarrow> stops_in R (load_Mass cfg snap st n w)"
  by (cases "mass (GetHeader snap) (PARTTYPE cfg) \<noteq> 0")
     (auto simp: load_Mass_def stops_in_GetBlock_into, auto simp: stops_in_def split: option.splits)

lemma stops_in_accumulate_Ne: "Fault \<in> R \<Longrightarrow> stops_in R (accumulate_Ne f n w)"
  by (auto simp: stops_in_def accumulate_Ne_def split: option.splits)

lemma stops_in_load_Ne: "Fault \<in> R \<Longrightarrow> stops_in R (load_Ne cfg snap st n w)"
  unfolding load_Ne_def
  by (intro stops_in_andthen stops_in_if stops_in_GetBlock_into stops_in_accumulate_Ne stops_in_Inr)

lemma stops_in_load_cooling: "Fault \<in> R \<Longrightarrow> stops_in R (load_cooling cfg snap st n w)"
  unfolding load_cooling_def
  by (intro stops_in_andthen stops_in_if stops_in_GetBlock_into stops_in_load_Ne stops_in_Inr)

lemma stops_in_load_gas: "Fault \<in> R \<Longrightarrow> stops_in R (load_gas cfg snap st n w)"
  unfolding load_gas_def
  by (intro stops_in_andthen stops_in_if stops_in_GetBlock_into stops_in_load_cooling stops_in_Inr)

lemma stops_in_check_and_omegab: "stops_in {Fault, Exited 0} (check_and_omegab snap n w)"
  by (auto simp: stops_in_def check_and_omegab_def split: option.splits verdict.splits)

lemma stops_in_load_blocks: "stops_in {Fault, Exited 0} (load_blocks cfg snap st n w)"
  unfolding load_blocks_def
  by (intro stops_in_andthen stops_in_GetBlock_into stops_in_load_Mass stops_in_check_and_omegab
        stops_in_load_gas) simp_all

subsection \<open>Allocation\<close>

lemma malloc_frame:
  "malloc n w = (p, w') \<Longrightarrow>
     P w' = P w \<and> reads w' = reads w \<and> header_outputs w' = header_outputs w
     \<and> omegab w' = omegab w \<and> mallocs w' = mallocs w @ [(n, p \<noteq> None)]
     \<and> heap w' = tl (heap w)"
  by (auto simp: malloc_def header_outputs_def split: list.splits option.splits)

lemma alloc_chain_log:
  "alloc_chain rs w = (ok, w') \<Longrightarrow>
     \<exists>log. mallocs w' = mallocs w @ log \<and> map fst log = take (length log) (map snd rs)
       \<and> (ok \<longleftrightarrow> length log = length rs \<and> (\<forall>e\<in>set log. snd e))
       \<and> (\<not> ok \<longleftrightarrow> (\<exists>e\<in>set log. \<not> snd e))"
proof (induction rs arbitrary: w)
  case Nil
  then show ?case by simp
next
  case (Cons a rs)
  obtain s n where a: "a = (s, n)" by (cases a)
  obtain p w1 where m: "malloc n w = (p, w1)" by (cases "malloc n w")
  note fr = malloc_frame [OF m]
  show ?case
  proof (cases "p = None")
    case True
    with Cons.prems a m have "ok = False" "w' = w1\<lparr>P := upd s p (P w1)\<rparr>" by auto
    with fr True show ?thesis
      by (intro exI [of _ "[(n, False)]"]) (simp add: a)
  next
    case False
    with Cons.prems a m have "alloc_chain rs (w1\<lparr>P := upd s p (P w1)\<rparr>) = (ok, w')" by auto
    from Cons.IH [OF this] obtain log where
      l: "mallocs w' = mallocs (w1\<lparr>P := upd s p (P w1)\<rparr>) @ log"
         "map fst log = take (length log) (map snd rs)"
         "ok \<longleftrightarrow> length log = length rs \<and> (\<forall>e\<in>set log. snd e)"
         "\<not> ok \<longleftrightarrow> (\<exists>e\<in>set log. \<not> snd e)" by blast
    with fr False show ?thesis
      by (intro exI [of _ "(n, True) # log"]) (auto simp: a)
  qed
qed

lemma alloc_chain_frame:
  "alloc_chain rs w = (ok, w') \<Longrightarrow>
     reads w' = reads w \<and> header_outputs w' = header_outputs w \<and> omegab w' = omegab w"
proof (induction rs arbitrary: w)
  case Nil
  then show ?case by simp
next
  case (Cons a rs)
  obtain s n where a: "a = (s, n)" by (cases a)
  obtain p w1 where m: "malloc n w = (p, w1)" by (cases "malloc n w")
  note fr = malloc_frame [OF m]
  show ?case
  proof (cases "p = None")
    case True
    with Cons.prems a m have "w' = w1\<lparr>P := upd s p (P w1)\<rparr>" by auto
    with fr show ?thesis by (simp add: header_outputs_def)
  next
    case False
    with Cons.prems a m have "alloc_chain rs (w1\<lparr>P := upd s p (P w1)\<rparr>) = (ok, w')" by auto
    from Cons.IH [OF this] fr show ?thesis by (simp add: header_outputs_def)
  qed
qed

lemma alloc_chain_slots:
  "alloc_chain rs w = (True, w') \<Longrightarrow> distinct (map fst rs) \<Longrightarrow>
     (\<forall>e\<in>set rs. \<exists>v. sel (fst e) (P w') = Some (replicate (snd e div 4) v))
     \<and> (\<forall>s. s \<notin> fst ` set rs \<longrightarrow> sel s (P w') = sel s (P w))"
proof (induction rs arbitrary: w)
  case Nil
  then show ?case by simp
next
  case (Cons a rs)
  obtain s n where a: "a = (s, n)" by (cases a)
  obtain p w1 where m: "malloc n w = (p, w1)" by (cases "malloc n w")
  note fr = malloc_frame [OF m]
  from Cons.prems a m have pn: "p \<noteq> None"
    and rest: "alloc_chain rs (w1\<lparr>P := upd s p (P w1)\<rparr>) = (True, w')"
    by (auto split: if_splits)
  from m pn obtain v where pv: "p = Some (replicate (n div 4) v)"
    by (auto simp: malloc_def split: list.splits option.splits)
  from Cons.prems a have d: "distinct (map fst rs)" and sn: "s \<notin> fst ` set rs" by auto
  from Cons.IH [OF rest d] have
    ih1: "\<forall>e\<in>set rs. \<exists>v. sel (fst e) (P w') = Some (replicate (snd e div 4) v)" and
    ih2: "\<forall>t. t \<notin> fst ` set rs \<longrightarrow> sel t (P w') = sel t (P (w1\<lparr>P := upd s p (P w1)\<rparr>))"
    by blast+
  from ih2 sn have "sel s (P w') = p" by (simp add: sel_upd)
  with pv ih1 have 1: "\<forall>e\<in>set (a # rs). \<exists>v. sel (fst e) (P w') = Some (replicate (snd e div 4) v)"
    by (auto simp: a)
  from ih2 fr have 2: "\<forall>t. t \<notin> fst ` set (a # rs) \<longrightarrow> sel t (P w') = sel t (P w)"
    by (auto simp: a sel_upd)
  from 1 2 show ?case by blast
qed

lemma alloc_chain_grants:
  "length rs \<le> length (heap w) \<Longrightarrow> \<forall>i<length rs. (heap w ! i) (snd (rs ! i)) \<noteq> None \<Longrightarrow>
     fst (alloc_chain rs w)"
proof (induction rs arbitrary: w)
  case Nil
  then show ?case by simp
next
  case (Cons a rs)
  obtain s n where a: "a = (s, n)" by (cases a)
  obtain p w1 where m: "malloc n w = (p, w1)" by (cases "malloc n w")
  note fr = malloc_frame [OF m]
  from Cons.prems obtain b hp where hw: "heap w = b # hp" by (cases "heap w") auto
  from Cons.prems(2) [rule_format, of 0] hw a have "b n \<noteq> None" by simp
  with m hw have pn: "p \<noteq> None"
    by (auto simp: malloc_def split: option.splits)
  let ?w = "w1\<lparr>P := upd s p (P w1)\<rparr>"
  from fr hw have h1: "heap ?w = hp" by simp
  from Cons.prems(1) hw h1 have l: "length rs \<le> length (heap ?w)" by simp
  have g: "\<forall>i<length rs. (heap ?w ! i) (snd (rs ! i)) \<noteq> None"
  proof (intro allI impI)
    fix i assume "i < length rs"
    with Cons.prems(2) [rule_format, of "Suc i"] hw h1 show "(heap ?w ! i) (snd (rs ! i)) \<noteq> None"
      by simp
  qed
  from Cons.IH [OF l g] m pn a show ?case by simp
qed

lemma distinct_alloc_requests: "distinct (map fst (alloc_requests cfg np))"
  by (simp add: alloc_requests_def)

lemma length_alloc_requests: "length (alloc_requests cfg np) = (if HELIUM cfg then 8 else 7)"
  by (simp add: alloc_requests_def)

subsection \<open>The reads of a load\<close>

lemma reads_GetBlock_into:
  "GetBlock_into snap tag s c st k w = Inr w' \<Longrightarrow> reads w' = reads w @ [(tag, c, st, k)]"
  by (auto simp: GetBlock_into_Inr)

lemma reads_accumulate_Ne: "accumulate_Ne g n w = Inr w' \<Longrightarrow> reads w' = reads w"
  by (auto simp: accumulate_Ne_def split: option.splits if_splits)

lemma reads_check_and_omegab: "check_and_omegab snap n w = Inr w' \<Longrightarrow> reads w' = reads w"
  by (auto simp: check_and_omegab_def split: option.splits verdict.splits if_splits)

lemma check_and_omegab_Inl: "check_and_omegab snap n w = Inl (r, w') \<Longrightarrow> w' = w"
  by (auto simp: check_and_omegab_def split: option.splits verdict.splits if_splits)

lemma reads_load_Mass:
  "load_Mass cfg snap S n w = Inr w' \<Longrightarrow>
     reads w' = reads w @ logged n S (mass_plan cfg (GetHeader snap))"
  by (cases "mass (GetHeader snap) (PARTTYPE cfg) \<noteq> 0")
     (auto simp: load_Mass_def mass_plan_def logged_def reads_GetBlock_into
           split: option.splits if_splits)

lemma reads_load_Ne:
  "load_Ne cfg snap S n w = Inr w' \<Longrightarrow> reads w' = reads w @ logged n S (Ne_plan cfg)"
  by (cases "GADGET3 cfg")
     (auto simp: load_Ne_def Ne_plan_def logged_def andthen_Inr
           dest!: reads_GetBlock_into reads_accumulate_Ne)

lemma reads_load_cooling:
  "load_cooling cfg snap S n w = Inr w' \<Longrightarrow> reads w' = reads w @ logged n S (cooling_plan cfg)"
  by (cases "HELIUM cfg")
     (auto simp: load_cooling_def cooling_plan_def logged_def andthen_Inr
           dest!: reads_GetBlock_into reads_load_Ne)

lemma reads_load_gas:
  "load_gas cfg snap S n w = Inr w' \<Longrightarrow>
     reads w' = reads w @ logged n S (gas_plan cfg (GetHeader snap))"
  by (cases "PARTTYPE cfg = 0"; cases "flag_cooling (GetHeader snap) \<noteq> 0")
     (auto simp: load_gas_def gas_plan_def logged_def andthen_Inr
           dest!: reads_GetBlock_into reads_load_cooling)

lemma reads_load_blocks:
  "load_blocks cfg snap S n w = Inr w' \<Longrightarrow>
     reads w' = reads w @ logged n S (read_plan cfg (GetHeader snap))"
  by (auto simp: load_blocks_def read_plan_def logged_def andthen_Inr
           dest!: reads_GetBlock_into reads_load_Mass reads_check_and_omegab reads_load_gas)

lemma load_gas_Inl: "load_gas cfg snap S n w = Inl (r, w') \<Longrightarrow> r = Fault"
  using stops_in_load_gas [of "{Fault}" cfg snap S n w] by (simp add: stops_in_def)

lemma load_Mass_Inl: "load_Mass cfg snap S n w = Inl (r, w') \<Longrightarrow> r = Fault"
  using stops_in_load_Mass [of "{Fault}" cfg snap S n w] by (simp add: stops_in_def)

text \<open>A load that ends with \<^verbatim>\<open>exit(0)\<close> ends in the uniformity check.\<close>

lemma load_blocks_Exited:
  assumes "load_blocks cfg snap S n w = Inl (Exited 0, w')"
  obtains w1 w2 where
    "GetBlock_into snap ''POS '' Pos_slot n S (type_mask cfg) w = Inr w1"
    "GetBlock_into snap ''VEL '' Vel_slot n S (type_mask cfg) w1 = Inr w2"
    "load_Mass cfg snap S n w2 = Inr w'"
    "check_and_omegab snap n w' = Inl (Exited 0, w')"
  using assms
  by (auto simp: load_blocks_def andthen_Inl dest: GetBlock_into_Inl load_Mass_Inl load_gas_Inl
        check_and_omegab_Inl)

lemma load_blocks_Inr:
  assumes "load_blocks cfg snap S n w = Inr w'"
  obtains w1 w2 w3 w4 where
    "GetBlock_into snap ''POS '' Pos_slot n S (type_mask cfg) w = Inr w1"
    "GetBlock_into snap ''VEL '' Vel_slot n S (type_mask cfg) w1 = Inr w2"
    "load_Mass cfg snap S n w2 = Inr w3"
    "check_and_omegab snap n w3 = Inr w4"
    "load_gas cfg snap S n w4 = Inr w'"
  using assms by (auto simp: load_blocks_def andthen_Inr)

subsection \<open>Running the stages on arrays of the right size\<close>

lemma field_of_upd: "field_of (w\<lparr>P := upd s x (P w)\<rparr>) = (field_of w)(s := x)"
  by (rule ext) (simp add: field_of_def sel_upd)

lemma GetBlock_into_run:
  assumes "field_of w s = Some buf" "length (GetBlock snap tag c st k) = length buf"
  shows "\<exists>w'. GetBlock_into snap tag s c st k w = Inr w'
           \<and> field_of w' = (field_of w)(s \<mapsto> GetBlock snap tag c st k)"
proof -
  let ?d = "GetBlock snap tag c st k"
  let ?w = "w\<lparr>reads := reads w @ [(tag, c, st, k)], P := upd s (Some ?d) (P w)\<rparr>"
  from assms have "GetBlock_into snap tag s c st k w = Inr ?w"
    by (simp add: GetBlock_into_Inr field_of_def)
  moreover have "field_of ?w = (field_of w)(s \<mapsto> ?d)"
    by (rule ext) (simp add: field_of_def sel_upd)
  ultimately show ?thesis by blast
qed

lemma loop_indices_upt: "0 \<le> n \<Longrightarrow> n \<le> 2147483647 \<Longrightarrow> loop_indices n = [0..<nat n]"
  by (simp add: loop_indices_def min_def)

lemma load_Mass_run:
  assumes b: "field_of w Mass_slot = Some buf" "length buf = nat n"
    and n: "0 < n" "n \<le> 2147483647"
    and d: "length (mass_data cfg snap S n) = nat n"
  shows "\<exists>w'. load_Mass cfg snap S n w = Inr w'
           \<and> field_of w' = (field_of w)(Mass_slot \<mapsto> mass_data cfg snap S n)"
proof (cases "mass (GetHeader snap) (PARTTYPE cfg) \<noteq> 0")
  case True
  let ?v = "to_float (mass (GetHeader snap) (PARTTYPE cfg))"
  from n have li: "loop_indices n = [0..<nat n]" by (simp add: loop_indices_upt)
  from b have "fill_Mass ?v [0..<nat n] buf \<noteq> None" by (intro fill_Mass_ok) simp
  then obtain m' where f: "fill_Mass ?v [0..<nat n] buf = Some m'" by blast
  from fill_Mass_SomeD [OF f] b have "length m' = nat n" "\<forall>i<nat n. m' ! i = ?v" by auto
  then have m': "m' = replicate (nat n) ?v" by (simp add: list_eq_iff_nth_eq)
  from b have mb: "Mass (P w) = Some buf" by (simp add: field_of_def)
  let ?w = "w\<lparr>P := upd Mass_slot (Some m') (P w)\<rparr>"
  from True mb f li n have "load_Mass cfg snap S n w = Inr ?w"
    by (simp add: load_Mass_def loop_overflows_def)
  moreover from True m' have "field_of ?w = (field_of w)(Mass_slot \<mapsto> mass_data cfg snap S n)"
    by (simp add: field_of_upd mass_data_def del: upd.simps)
  ultimately show ?thesis by blast
next
  case False
  then have md: "mass_data cfg snap S n = GetBlock snap ''MASS'' n S (mass_skip cfg (GetHeader snap))"
    by (simp add: mass_data_def)
  from d b md have "length (GetBlock snap ''MASS'' n S (mass_skip cfg (GetHeader snap))) = length buf"
    by simp
  from GetBlock_into_run [OF b(1) this] False md show ?thesis
    by (simp add: load_Mass_def)
qed

lemma check_and_omegab_run:
  assumes b: "field_of w Mass_slot = Some m" "length m = nat n"
    and n: "0 < n" "n \<le> 2147483647"
  shows "if \<forall>i<nat n. m ! i = m ! 0
         then \<exists>w'. check_and_omegab snap n w = Inr w' \<and> field_of w' = field_of w
         else check_and_omegab snap n w = Inl (Exited 0, w)"
proof -
  from n have li: "loop_indices n = [0..<nat n]" by (simp add: loop_indices_upt)
  from b have mb: "Mass (P w) = Some m" by (simp add: field_of_def)
  from b n have ne: "m \<noteq> []" by auto
  show ?thesis
  proof (cases "\<forall>i<nat n. m ! i = m ! 0")
    case True
    have "\<forall>i\<in>set [0..<nat n]. i < length m \<and> m ! i = m ! 0"
    proof (intro ballI conjI)
      fix i assume "i \<in> set [0..<nat n]"
      then have i: "i < nat n" by simp
      from i b show "i < length m" by simp
      from i True show "m ! i = m ! 0" by blast
    qed
    then have u: "check_Mass [0..<nat n] m = Uniform" by (simp only: check_Mass_Uniform)
    have "\<exists>w'. check_and_omegab snap n w = Inr w' \<and> field_of w' = field_of w"
      using mb li n ne u
      by (simp add: check_and_omegab_def loop_overflows_def field_of_def fun_eq_iff)
    then show ?thesis unfolding if_P [OF True] .
  next
    case False
    have "check_Mass [0..<nat n] m \<noteq> Uniform"
    proof
      assume "check_Mass [0..<nat n] m = Uniform"
      then have u: "\<forall>i\<in>set [0..<nat n]. i < length m \<and> m ! i = m ! 0"
        by (simp only: check_Mass_Uniform)
      have "m ! i = m ! 0" if "i < nat n" for i
      proof -
        from that have "i \<in> set [0..<nat n]" by simp
        with u show ?thesis by blast
      qed
      with False show False by blast
    qed
    moreover from b have "check_Mass [0..<nat n] m \<noteq> Outside"
      using check_Mass_Outside [of "[0..<nat n]" m] by auto
    ultimately obtain i where "check_Mass [0..<nat n] m = Changed i"
      by (cases "check_Mass [0..<nat n] m") auto
    with mb li have "check_and_omegab snap n w = Inl (Exited 0, w)"
      by (simp add: check_and_omegab_def)
    then show ?thesis unfolding if_not_P [OF False] .
  qed
qed

lemma accumulate_Ne_run:
  assumes b: "field_of w Ne_slot = Some ne" "field_of w h_slot = Some hs"
      "length ne = nat n" "length hs = nat n"
    and n: "0 < n" "n \<le> 2147483647"
  shows "\<exists>w'. accumulate_Ne g n w = Inr w'
           \<and> field_of w' = (field_of w)(Ne_slot \<mapsto> map (\<lambda>k. ne ! k + g (hs ! k)) [0..<nat n])"
proof -
  from n have li: "loop_indices n = [0..<nat n]" by (simp add: loop_indices_upt)
  from b have "add_into g [0..<nat n] ne hs \<noteq> None" by (intro add_into_ok) simp
  then obtain ne' where f: "add_into g [0..<nat n] ne hs = Some ne'" by blast
  from add_into_SomeD [OF f] b
  have "length ne' = nat n" "\<forall>k<nat n. ne' ! k = ne ! k + g (hs ! k)" by auto
  then have ne': "ne' = map (\<lambda>k. ne ! k + g (hs ! k)) [0..<nat n]"
    by (simp add: list_eq_iff_nth_eq)
  let ?w = "w\<lparr>P := upd Ne_slot (Some ne') (P w)\<rparr>"
  from b f li n have "accumulate_Ne g n w = Inr ?w"
    by (simp add: accumulate_Ne_def loop_overflows_def field_of_def)
  moreover from ne' have "field_of ?w = (field_of w)(Ne_slot \<mapsto> map (\<lambda>k. ne ! k + g (hs ! k)) [0..<nat n])"
    by (simp add: field_of_upd del: upd.simps)
  ultimately show ?thesis by blast
qed

lemma sizedD:
  "sized cfg n w \<Longrightarrow> s = NHep_slot \<longrightarrow> HELIUM cfg \<Longrightarrow>
     \<exists>b. field_of w s = Some b \<and> length b = capacity s n"
  by (simp add: sized_def)

lemma sized_upd:
  assumes "sized cfg n w" "field_of w' = (field_of w)(s \<mapsto> d)" "length d = capacity s n"
  shows "sized cfg n w'"
  using assms by (auto simp: sized_def)

lemma sized_same: "sized cfg n w \<Longrightarrow> field_of w' = field_of w \<Longrightarrow> sized cfg n w'"
  by (simp add: sized_def)

lemma GetBlock_into_sized:
  assumes sz: "sized cfg n w" and s: "s = NHep_slot \<longrightarrow> HELIUM cfg"
    and l: "length (GetBlock snap tag c st k) = capacity s n"
  shows "\<exists>w'. GetBlock_into snap tag s c st k w = Inr w' \<and> sized cfg n w'
           \<and> field_of w' = (field_of w)(s \<mapsto> GetBlock snap tag c st k)"
proof -
  from sizedD [OF sz s] obtain b where b: "field_of w s = Some b" "length b = capacity s n"
    by blast
  with l have "length (GetBlock snap tag c st k) = length b" by simp
  from GetBlock_into_run [OF b(1) this] obtain w' where
    w': "GetBlock_into snap tag s c st k w = Inr w'"
        "field_of w' = (field_of w)(s \<mapsto> GetBlock snap tag c st k)" by blast
  from sized_upd [OF sz w'(2) l] w' show ?thesis by blast
qed

lemma load_Ne_run:
  assumes sz: "sized cfg (nat n) w" and n: "0 < n" "n \<le> 2147483647"
    and full: "\<forall>e\<in>set (Ne_plan cfg). length (GetBlock snap (fst e) n S (snd e)) = nat n"
  shows "\<exists>w'. load_Ne cfg snap S n w = Inr w' \<and> sized cfg (nat n) w'
           \<and> field_of w' Ne_slot = Some (Ne_data cfg snap S n)
           \<and> (\<forall>t. t \<noteq> Ne_slot \<and> t \<noteq> h_slot \<longrightarrow> field_of w' t = field_of w t)"
proof (cases "GADGET3 cfg")
  case True
  with full have "length (GetBlock snap ''NE  '' n S 0) = capacity Ne_slot (nat n)"
    by (simp add: Ne_plan_def capacity_def)
  from GetBlock_into_sized [OF sz _ this] True show ?thesis
    by (auto simp: load_Ne_def Ne_data_def)
next
  case False
  let ?a = "GetBlock snap ''NHP '' n S 0"
  let ?b = "GetBlock snap ''NHEP'' n S 0"
  let ?c = "GetBlock snap ''NHEQ'' n S 0"
  from False full have la: "length ?a = nat n" and lb: "length ?b = nat n" and lc: "length ?c = nat n"
    by (simp_all add: Ne_plan_def)
  from la have "length ?a = capacity Ne_slot (nat n)" by (simp add: capacity_def)
  from GetBlock_into_sized [OF sz _ this] obtain w1 where
    1: "GetBlock_into snap ''NHP '' Ne_slot n S 0 w = Inr w1" "sized cfg (nat n) w1"
       "field_of w1 = (field_of w)(Ne_slot \<mapsto> ?a)" by auto
  from lb have "length ?b = capacity h_slot (nat n)" by (simp add: capacity_def)
  from GetBlock_into_sized [OF 1(2) _ this] obtain w2 where
    2: "GetBlock_into snap ''NHEP'' h_slot n S 0 w1 = Inr w2" "sized cfg (nat n) w2"
       "field_of w2 = (field_of w1)(h_slot \<mapsto> ?b)" by auto
  from 1 2 have "field_of w2 Ne_slot = Some ?a" "field_of w2 h_slot = Some ?b" by simp_all
  from accumulate_Ne_run [OF this la lb n, of "\<lambda>x. x"] obtain w3 where
    3: "accumulate_Ne (\<lambda>x. x) n w2 = Inr w3"
       "field_of w3 = (field_of w2)(Ne_slot \<mapsto> map (\<lambda>k. ?a ! k + ?b ! k) [0..<nat n])" by blast
  have "sized cfg (nat n) w3"
    by (rule sized_upd [OF 2(2) 3(2)]) (simp add: capacity_def)
  moreover from lc have "length ?c = capacity h_slot (nat n)" by (simp add: capacity_def)
  ultimately obtain w4 where
    4: "GetBlock_into snap ''NHEQ'' h_slot n S 0 w3 = Inr w4" "sized cfg (nat n) w4"
       "field_of w4 = (field_of w3)(h_slot \<mapsto> ?c)"
    using GetBlock_into_sized [of cfg "nat n" w3 h_slot snap "''NHEQ''" n S 0] by auto
  let ?ab = "map (\<lambda>k. ?a ! k + ?b ! k) [0..<nat n]"
  from 3 4 have f4: "field_of w4 Ne_slot = Some ?ab" "field_of w4 h_slot = Some ?c" by simp_all
  have lab: "length ?ab = nat n" by simp
  from accumulate_Ne_run [OF f4 lab lc n, of "\<lambda>x. 2 * x"] obtain w5 where
    5: "accumulate_Ne (\<lambda>x. 2 * x) n w4 = Inr w5"
       "field_of w5 = (field_of w4)(Ne_slot \<mapsto> map (\<lambda>k. ?ab ! k + 2 * ?c ! k) [0..<nat n])"
    by blast
  have e: "map (\<lambda>k. ?ab ! k + 2 * ?c ! k) [0..<nat n] = Ne_data cfg snap S n"
    using False by (simp add: Ne_data_def)
  have s5: "sized cfg (nat n) w5"
    by (rule sized_upd [OF 4(2) 5(2)]) (simp add: capacity_def)
  from 1 2 3 4 5 have "load_Ne cfg snap S n w = Inr w5"
    using False by (simp add: load_Ne_def andthen_def)
  moreover from 5 e have "field_of w5 Ne_slot = Some (Ne_data cfg snap S n)" by simp
  moreover from 1 2 3 4 5
  have "\<forall>t. t \<noteq> Ne_slot \<and> t \<noteq> h_slot \<longrightarrow> field_of w5 t = field_of w t" by simp
  ultimately show ?thesis using s5 by blast
qed

lemma load_cooling_run:
  assumes sz: "sized cfg (nat n) w" and n: "0 < n" "n \<le> 2147483647"
    and full: "\<forall>e\<in>set (cooling_plan cfg). length (GetBlock snap (fst e) n S (snd e)) = nat n"
  shows "\<exists>w'. load_cooling cfg snap S n w = Inr w' \<and> sized cfg (nat n) w'
           \<and> field_of w' Ne_slot = Some (Ne_data cfg snap S n)
           \<and> field_of w' NH0_slot = Some (GetBlock snap ''NH  '' n S 0)
           \<and> (HELIUM cfg \<longrightarrow> field_of w' NHep_slot = Some (GetBlock snap ''NHE '' n S 0))
           \<and> (\<forall>t. t \<notin> gas_slots \<or> t = U_slot \<longrightarrow> field_of w' t = field_of w t)"
proof -
  from full have "\<forall>e\<in>set (Ne_plan cfg). length (GetBlock snap (fst e) n S (snd e)) = nat n"
    by (simp add: cooling_plan_def)
  from load_Ne_run [OF sz n this] obtain w1 where
    1: "load_Ne cfg snap S n w = Inr w1" "sized cfg (nat n) w1"
       "field_of w1 Ne_slot = Some (Ne_data cfg snap S n)"
       "\<forall>t. t \<noteq> Ne_slot \<and> t \<noteq> h_slot \<longrightarrow> field_of w1 t = field_of w t" by blast
  from full have lh: "length (GetBlock snap ''NH  '' n S 0) = capacity NH0_slot (nat n)"
    by (simp add: cooling_plan_def capacity_def)
  show ?thesis
  proof (cases "HELIUM cfg")
    case True
    with full have "length (GetBlock snap ''NHE '' n S 0) = capacity NHep_slot (nat n)"
      by (simp add: cooling_plan_def capacity_def)
    with GetBlock_into_sized [of cfg "nat n" w1 NHep_slot snap "''NHE ''" n S 0] 1(2) True
    obtain w2 where
      2: "GetBlock_into snap ''NHE '' NHep_slot n S 0 w1 = Inr w2" "sized cfg (nat n) w2"
         "field_of w2 = (field_of w1)(NHep_slot \<mapsto> GetBlock snap ''NHE '' n S 0)" by auto
    from GetBlock_into_sized [OF 2(2) _ lh] obtain w3 where
      3: "GetBlock_into snap ''NH  '' NH0_slot n S 0 w2 = Inr w3" "sized cfg (nat n) w3"
         "field_of w3 = (field_of w2)(NH0_slot \<mapsto> GetBlock snap ''NH  '' n S 0)" by auto
    from 1 2 3 True have "load_cooling cfg snap S n w = Inr w3"
      by (simp add: load_cooling_def andthen_def)
    with 1 2 3 True show ?thesis by (auto simp: gas_slots_def)
  next
    case False
    from GetBlock_into_sized [OF 1(2) _ lh] obtain w3 where
      3: "GetBlock_into snap ''NH  '' NH0_slot n S 0 w1 = Inr w3" "sized cfg (nat n) w3"
         "field_of w3 = (field_of w1)(NH0_slot \<mapsto> GetBlock snap ''NH  '' n S 0)" by auto
    from 1 3 False have "load_cooling cfg snap S n w = Inr w3"
      by (simp add: load_cooling_def andthen_def)
    with 1 3 False show ?thesis by (auto simp: gas_slots_def)
  qed
qed

lemma load_gas_run:
  assumes sz: "sized cfg (nat n) w" and n: "0 < n" "n \<le> 2147483647"
    and full: "\<forall>e\<in>set (gas_plan cfg (GetHeader snap)).
                 length (GetBlock snap (fst e) n S (snd e)) = nat n"
  shows "\<exists>w'. load_gas cfg snap S n w = Inr w'
           \<and> (\<forall>s\<in>populated cfg (GetHeader snap) \<inter> gas_slots.
                 field_of w' s = Some (field_data cfg snap S n s))
           \<and> (\<forall>t. t \<notin> gas_slots \<longrightarrow> field_of w' t = field_of w t)"
proof (cases "PARTTYPE cfg = 0")
  case False
  then show ?thesis by (simp add: load_gas_def populated_def gas_slots_def)
next
  case gas: True
  with full have "length (GetBlock snap ''U   '' n S 0) = capacity U_slot (nat n)"
    and lh: "length (GetBlock snap ''HSML'' n S 0) = capacity h_slot (nat n)"
    by (simp_all add: gas_plan_def capacity_def)
  from GetBlock_into_sized [OF sz _ this(1)] obtain w1 where
    1: "GetBlock_into snap ''U   '' U_slot n S 0 w = Inr w1" "sized cfg (nat n) w1"
       "field_of w1 = (field_of w)(U_slot \<mapsto> GetBlock snap ''U   '' n S 0)" by auto
  show ?thesis
  proof (cases "flag_cooling (GetHeader snap) \<noteq> 0")
    case True
    with gas full
    have "\<forall>e\<in>set (cooling_plan cfg). length (GetBlock snap (fst e) n S (snd e)) = nat n"
      by (simp add: gas_plan_def)
    from load_cooling_run [OF 1(2) n this] obtain w2 where
      2: "load_cooling cfg snap S n w1 = Inr w2" "sized cfg (nat n) w2"
         "field_of w2 Ne_slot = Some (Ne_data cfg snap S n)"
         "field_of w2 NH0_slot = Some (GetBlock snap ''NH  '' n S 0)"
         "HELIUM cfg \<longrightarrow> field_of w2 NHep_slot = Some (GetBlock snap ''NHE '' n S 0)"
         "\<forall>t. t \<notin> gas_slots \<or> t = U_slot \<longrightarrow> field_of w2 t = field_of w1 t" by blast
    from GetBlock_into_sized [OF 2(2) _ lh] obtain w3 where
      3: "GetBlock_into snap ''HSML'' h_slot n S 0 w2 = Inr w3"
         "field_of w3 = (field_of w2)(h_slot \<mapsto> GetBlock snap ''HSML'' n S 0)" by auto
    from gas True 1 2 3 have "load_gas cfg snap S n w = Inr w3"
      by (simp add: load_gas_def andthen_def)
    moreover from gas True 1 2 3
    have "\<forall>s\<in>populated cfg (GetHeader snap) \<inter> gas_slots.
            field_of w3 s = Some (field_data cfg snap S n s)"
      by (auto simp: populated_def gas_slots_def split: if_splits)
    moreover from 1 2 3 have "\<forall>t. t \<notin> gas_slots \<longrightarrow> field_of w3 t = field_of w t"
      by (auto simp: gas_slots_def)
    ultimately show ?thesis by blast
  next
    case False
    from GetBlock_into_sized [OF 1(2) _ lh] obtain w3 where
      3: "GetBlock_into snap ''HSML'' h_slot n S 0 w1 = Inr w3"
         "field_of w3 = (field_of w1)(h_slot \<mapsto> GetBlock snap ''HSML'' n S 0)" by auto
    from gas False 1 3 have "load_gas cfg snap S n w = Inr w3"
      by (simp add: load_gas_def andthen_def)
    moreover from gas False 1 3
    have "\<forall>s\<in>populated cfg (GetHeader snap) \<inter> gas_slots.
            field_of w3 s = Some (field_data cfg snap S n s)"
      by (auto simp: populated_def gas_slots_def split: if_splits)
    moreover from 1 3 have "\<forall>t. t \<notin> gas_slots \<longrightarrow> field_of w3 t = field_of w t"
      by (auto simp: gas_slots_def)
    ultimately show ?thesis by blast
  qed
qed

lemma full_reads_mass_data:
  "full_reads cfg snap S n \<Longrightarrow> length (mass_data cfg snap S n) = nat n"
  by (auto simp: full_reads_def read_plan_def mass_plan_def mass_data_def block_width_def)

lemma load_blocks_run:
  assumes sz: "sized cfg (nat n) w" and n: "0 < n" "n \<le> 2147483647"
    and full: "full_reads cfg snap S n"
  shows "if \<forall>i<nat n. mass_data cfg snap S n ! i = mass_data cfg snap S n ! 0
         then \<exists>w'. load_blocks cfg snap S n w = Inr w'
                \<and> (\<forall>s\<in>populated cfg (GetHeader snap).
                      field_of w' s = Some (field_data cfg snap S n s))
         else \<exists>w'. load_blocks cfg snap S n w = Inl (Exited 0, w')"
proof -
  let ?md = "mass_data cfg snap S n"
  from full have lp: "length (GetBlock snap ''POS '' n S (type_mask cfg)) = capacity Pos_slot (nat n)"
    and lv: "length (GetBlock snap ''VEL '' n S (type_mask cfg)) = capacity Vel_slot (nat n)"
    and lg: "\<forall>e\<in>set (gas_plan cfg (GetHeader snap)).
               length (GetBlock snap (fst e) n S (snd e)) = nat n"
    by (auto simp: full_reads_def read_plan_def block_width_def capacity_def gas_plan_def
          cooling_plan_def Ne_plan_def)
  note lm = full_reads_mass_data [OF full]
  from GetBlock_into_sized [OF sz _ lp] obtain w1 where
    1: "GetBlock_into snap ''POS '' Pos_slot n S (type_mask cfg) w = Inr w1" "sized cfg (nat n) w1"
       "field_of w1 = (field_of w)(Pos_slot \<mapsto> GetBlock snap ''POS '' n S (type_mask cfg))"
    by auto
  from GetBlock_into_sized [OF 1(2) _ lv] obtain w2 where
    2: "GetBlock_into snap ''VEL '' Vel_slot n S (type_mask cfg) w1 = Inr w2" "sized cfg (nat n) w2"
       "field_of w2 = (field_of w1)(Vel_slot \<mapsto> GetBlock snap ''VEL '' n S (type_mask cfg))"
    by auto
  from sizedD [OF 2(2), of Mass_slot] obtain b where
    b: "field_of w2 Mass_slot = Some b" "length b = nat n" by (auto simp: capacity_def)
  from load_Mass_run [OF b n lm] obtain w3 where
    3: "load_Mass cfg snap S n w2 = Inr w3" "field_of w3 = (field_of w2)(Mass_slot \<mapsto> ?md)"
    by blast
  have s3: "sized cfg (nat n) w3"
    by (rule sized_upd [OF 2(2) 3(2)]) (simp add: lm capacity_def)
  from 3 have m3: "field_of w3 Mass_slot = Some ?md" by simp
  note ck = check_and_omegab_run [OF m3 lm n, of snap]
  show ?thesis
  proof (cases "\<forall>i<nat n. ?md ! i = ?md ! 0")
    case True
    from ck obtain w4 where
      4: "check_and_omegab snap n w3 = Inr w4" "field_of w4 = field_of w3"
      unfolding if_P [OF True] by blast
    from sized_same [OF s3 4(2)] have s4: "sized cfg (nat n) w4" .
    from load_gas_run [OF s4 n lg] obtain w5 where
      5: "load_gas cfg snap S n w4 = Inr w5"
         "\<forall>s\<in>populated cfg (GetHeader snap) \<inter> gas_slots.
             field_of w5 s = Some (field_data cfg snap S n s)"
         "\<forall>t. t \<notin> gas_slots \<longrightarrow> field_of w5 t = field_of w4 t" by blast
    from 1 2 3 4 5 have r: "load_blocks cfg snap S n w = Inr w5"
      by (simp add: load_blocks_def andthen_def)
    have "field_of w5 s = Some (field_data cfg snap S n s)"
      if "s \<in> populated cfg (GetHeader snap)" for s
    proof (cases "s \<in> gas_slots")
      case True
      with that 5 show ?thesis by blast
    next
      case False
      with that have "s = Pos_slot \<or> s = Vel_slot \<or> s = Mass_slot"
        by (auto simp: populated_def gas_slots_def split: if_splits)
      moreover from False 5 have "field_of w5 s = field_of w4 s" by blast
      ultimately show ?thesis using 1 2 3 4 by auto
    qed
    with r have "\<exists>w'. load_blocks cfg snap S n w = Inr w'
                \<and> (\<forall>s\<in>populated cfg (GetHeader snap).
                      field_of w' s = Some (field_data cfg snap S n s))" by blast
    then show ?thesis unfolding if_P [OF True] .
  next
    case False
    from ck have "check_and_omegab snap n w3 = Inl (Exited 0, w3)"
      unfolding if_not_P [OF False] .
    with 1 2 3 have "load_blocks cfg snap S n w = Inl (Exited 0, w3)"
      by (simp add: load_blocks_def andthen_def)
    then have "\<exists>w'. load_blocks cfg snap S n w = Inl (Exited 0, w')" by blast
    then show ?thesis unfolding if_not_P [OF False] .
  qed
qed

subsection \<open>From the allocation to the arrays\<close>

lemma to_int32_id: "- 2147483648 \<le> n \<Longrightarrow> n < 2147483648 \<Longrightarrow> to_int32 n = n"
  by (simp add: to_int32_def signed_take_bit_int_eq_self)

lemma bytes_small:
  assumes "0 \<le> n" "n < 536870912"
  shows "bytes3 (to_int32 n) div 4 = 3 * nat n" "bytes1 (to_int32 n) div 4 = nat n"
proof -
  from assms have 1: "to_int32 n = n" by (simp add: to_int32_id)
  from assms have 2: "to_int32 (n * 3) = n * 3" by (simp add: to_int32_id)
  from assms have 3: "(n * 3 * 4) mod 2 ^ 64 = n * 12" "(n * 4) mod 2 ^ 64 = n * 4" by simp_all
  from assms have "nat (n * 12) div 4 = 3 * nat n" "nat (n * 4) div 4 = nat n" by linarith+
  with 1 2 3 show "bytes3 (to_int32 n) div 4 = 3 * nat n" "bytes1 (to_int32 n) div 4 = nat n"
    by (simp_all add: bytes3_def bytes1_def)
qed

lemma alloc_parts_sized:
  assumes a: "alloc_parts cfg (to_int32 n) w = (True, w1)" and n: "0 \<le> n" "n < 536870912"
  shows "sized cfg (nat n) w1"
proof -
  let ?rs = "alloc_requests cfg (to_int32 n)"
  from a have "alloc_chain ?rs w = (True, w1)" by (simp add: alloc_parts_def)
  from alloc_chain_slots [OF this distinct_alloc_requests]
  have sl: "\<forall>e\<in>set ?rs. \<exists>v. sel (fst e) (P w1) = Some (replicate (snd e div 4) v)" by blast
  have "\<exists>b. field_of w1 s = Some b \<and> length b = capacity s (nat n)"
    if "s = NHep_slot \<longrightarrow> HELIUM cfg" for s
  proof -
    have "(s, if s = Pos_slot \<or> s = Vel_slot then bytes3 (to_int32 n) else bytes1 (to_int32 n))
            \<in> set ?rs"
      using that by (cases s) (simp_all add: alloc_requests_def)
    with sl obtain v where "sel s (P w1)
        = Some (replicate ((if s = Pos_slot \<or> s = Vel_slot then bytes3 (to_int32 n)
                            else bytes1 (to_int32 n)) div 4) v)"
      by fastforce
    with bytes_small [OF n] show ?thesis
      by (auto simp: field_of_def capacity_def)
  qed
  then show ?thesis by (simp add: sized_def)
qed

lemma alloc_parts_grants:
  assumes "length (alloc_requests cfg np) \<le> length (heap w)"
    and "\<forall>a\<in>set (heap w). a (bytes3 np) \<noteq> None \<and> a (bytes1 np) \<noteq> None"
  shows "fst (alloc_parts cfg np w)"
  unfolding alloc_parts_def
proof (rule alloc_chain_grants [OF assms(1)], intro allI impI)
  fix i assume i: "i < length (alloc_requests cfg np)"
  with assms(1) have "heap w ! i \<in> set (heap w)" by simp
  moreover from i have "alloc_requests cfg np ! i \<in> set (alloc_requests cfg np)" by simp
  then have "snd (alloc_requests cfg np ! i) = bytes3 np \<or> snd (alloc_requests cfg np ! i) = bytes1 np"
    by (auto simp: alloc_requests_def split: if_splits)
  ultimately show "(heap w ! i) (snd (alloc_requests cfg np ! i)) \<noteq> None"
    using assms(2) by auto
qed

section \<open>The call as a whole\<close>

lemma load_snapshot_cases [consumes 0, case_names zero nomem stopped returned]:
  fixes cfg snap S M w
  defines "n \<equiv> resolve_NumPart cfg snap S M"
  obtains
    "n = 0" "load_snapshot cfg snap S M w = (Returned 0, header_scalars snap w)"
  | w1 where "n \<noteq> 0" "alloc_parts cfg (to_int32 n) (header_scalars snap w) = (False, w1)"
      "load_snapshot cfg snap S M w = (Exited 1, w1)"
  | w1 r w' where "n \<noteq> 0" "alloc_parts cfg (to_int32 n) (header_scalars snap w) = (True, w1)"
      "load_blocks cfg snap S n w1 = Inl (r, w')" "load_snapshot cfg snap S M w = (r, w')"
      "r = Fault \<or> r = Exited 0"
  | w1 w' where "n \<noteq> 0" "alloc_parts cfg (to_int32 n) (header_scalars snap w) = (True, w1)"
      "load_blocks cfg snap S n w1 = Inr w'" "load_snapshot cfg snap S M w = (Returned n, w')"
proof (cases "n = 0")
  case True
  then have "load_snapshot cfg snap S M w = (Returned 0, header_scalars snap w)"
    by (simp add: load_snapshot_def n_def Let_def)
  with True that(1) show ?thesis by auto
next
  case nz: False
  obtain ok w1 where a: "alloc_parts cfg (to_int32 n) (header_scalars snap w) = (ok, w1)"
    by (cases "alloc_parts cfg (to_int32 n) (header_scalars snap w)")
  show ?thesis
  proof (cases ok)
    case False
    with nz a have "load_snapshot cfg snap S M w = (Exited 1, w1)"
      by (simp add: load_snapshot_def n_def Let_def)
    with nz a False that(2) show ?thesis by auto
  next
    case True
    show ?thesis
    proof (cases "load_blocks cfg snap S n w1")
      case (Inl e)
      obtain r w' where e: "e = (r, w')" by (cases e)
      from stops_in_load_blocks [of cfg snap S n w1] Inl e have r: "r = Fault \<or> r = Exited 0"
        by (auto simp: stops_in_def)
      from nz a True Inl e have "load_snapshot cfg snap S M w = (r, w')"
        by (simp add: load_snapshot_def n_def Let_def)
      with nz a True Inl e r that(3) show ?thesis by auto
    next
      case (Inr w')
      with nz a True have "load_snapshot cfg snap S M w = (Returned n, w')"
        by (simp add: load_snapshot_def n_def Let_def)
      with nz a True Inr that(4) show ?thesis by auto
    qed
  qed
qed

lemma load_snapshot_run:
  assumes n: "resolve_NumPart cfg snap S M = n" "0 < n" "n < 536870912"
    and a: "fst (alloc_parts cfg (to_int32 n) (header_scalars snap w))"
    and full: "full_reads cfg snap S n"
  shows "if \<forall>i<nat n. mass_data cfg snap S n ! i = mass_data cfg snap S n ! 0
         then \<exists>w'. load_snapshot cfg snap S M w = (Returned n, w')
                \<and> (\<forall>s\<in>populated cfg (GetHeader snap).
                      field_of w' s = Some (field_data cfg snap S n s))
         else \<exists>w'. load_snapshot cfg snap S M w = (Exited 0, w')"
proof -
  obtain w1 where w1: "alloc_parts cfg (to_int32 n) (header_scalars snap w) = (True, w1)"
    using a by (cases "alloc_parts cfg (to_int32 n) (header_scalars snap w)") auto
  from n have sz: "sized cfg (nat n) w1" by (intro alloc_parts_sized [OF w1]) simp_all
  from n have n': "0 < n" "n \<le> 2147483647" by simp_all
  note run = load_blocks_run [OF sz n' full]
  show ?thesis
  proof (cases "\<forall>i<nat n. mass_data cfg snap S n ! i = mass_data cfg snap S n ! 0")
    case True
    from run obtain w' where
      "load_blocks cfg snap S n w1 = Inr w'"
      "\<forall>s\<in>populated cfg (GetHeader snap). field_of w' s = Some (field_data cfg snap S n s)"
      unfolding if_P [OF True] by blast
    with n w1 have "\<exists>w'. load_snapshot cfg snap S M w = (Returned n, w')
                \<and> (\<forall>s\<in>populated cfg (GetHeader snap).
                      field_of w' s = Some (field_data cfg snap S n s))"
      by (auto simp: load_snapshot_def Let_def)
    then show ?thesis unfolding if_P [OF True] .
  next
    case False
    from run obtain w' where "load_blocks cfg snap S n w1 = Inl (Exited 0, w')"
      unfolding if_not_P [OF False] by blast
    with n w1 have "\<exists>w'. load_snapshot cfg snap S M w = (Exited 0, w')"
      by (auto simp: load_snapshot_def Let_def)
    then show ?thesis unfolding if_not_P [OF False] .
  qed
qed

lemma header_outputs_header_scalars:
  "header_outputs (header_scalars snap w) =
     (time (GetHeader snap), redshift (GetHeader snap),
      100 * HubbleParam (GetHeader snap)
        * sqrt (1 + Omega0 (GetHeader snap) * (1 / time (GetHeader snap) - 1)
                  + OmegaLambda (GetHeader snap) * ((time (GetHeader snap))\<^sup>2 - 1))
        / time (GetHeader snap),
      BoxSize (GetHeader snap), HubbleParam (GetHeader snap))"
  by (simp add: header_outputs_def header_scalars_def Let_def)

lemma header_outputs_load_snapshot:
  "header_outputs (snd (load_snapshot cfg snap S M w)) = header_outputs (header_scalars snap w)"
proof (cases rule: load_snapshot_cases [of cfg snap S M w])
  case zero
  then show ?thesis by simp
next
  case (nomem w1)
  then show ?thesis by (simp add: alloc_parts_def alloc_chain_frame)
next
  case (stopped w1 r w')
  have "keeps header_outputs w1 (load_blocks cfg snap S (resolve_NumPart cfg snap S M) w1)"
    by (rule keeps_load_blocks) (simp_all add: header_outputs_def)
  with stopped show ?thesis
    by (simp add: keeps_def alloc_parts_def alloc_chain_frame)
next
  case (returned w1 w')
  have "keeps header_outputs w1 (load_blocks cfg snap S (resolve_NumPart cfg snap S M) w1)"
    by (rule keeps_load_blocks) (simp_all add: header_outputs_def)
  with returned show ?thesis
    by (simp add: keeps_def alloc_parts_def alloc_chain_frame)
qed

lemma heap_header_scalars: "heap (header_scalars snap w) = heap w"
  by (simp add: header_scalars_def Let_def)

lemma resolve_zero: "resolve_NumPart cfg snap S M = 0 \<longleftrightarrow> S = GetNpart snap (PARTTYPE cfg)"
  by (auto simp: resolve_NumPart_def min_def)

subsection \<open>Allocation outcomes and a run on the two-particle example\<close>

lemma full_two: "full_reads cfg_gas snap_two 0 2"
  by code_simp

lemma grants_two: "fst (alloc_parts cfg_gas (to_int32 2) (header_scalars snap_two (fresh_world (replicate 7 roomy))))"
  by (rule alloc_parts_grants)
     (simp_all add: alloc_requests_def cfg_gas_def heap_header_scalars fresh_world_def roomy_def
        bytes3_def bytes1_def to_int32_id)

lemma uniform_header_mass:
  "mass (GetHeader snap) (PARTTYPE cfg) \<noteq> 0 \<Longrightarrow>
     \<forall>i<nat n. mass_data cfg snap S n ! i = mass_data cfg snap S n ! 0"
  by (simp add: mass_data_def)

lemma run_two: "\<exists>w'. load_snapshot cfg_gas snap_two 0 0 (fresh_world (replicate 7 roomy)) = (Returned 2, w')
   \<and> (\<forall>s\<in>populated cfg_gas (GetHeader snap_two). field_of w' s = Some (field_data cfg_gas snap_two 0 2 s))"
proof -
  have r: "resolve_NumPart cfg_gas snap_two 0 0 = 2"
    by (simp add: resolve_NumPart_def cfg_gas_def snap_two_def)
  have u: "\<forall>i<nat 2. mass_data cfg_gas snap_two 0 2 ! i = mass_data cfg_gas snap_two 0 2 ! 0"
    by (rule uniform_header_mass) (simp add: snap_two_def hdr_today_def double_tenth_def cfg_gas_def)
  from load_snapshot_run [OF r _ _ grants_two full_two] show ?thesis
    unfolding if_P [OF u] by simp
qed

lemma alloc_parts_refused_first:
  "heap w = a # hp \<Longrightarrow> a (bytes3 np) = None \<Longrightarrow>
     alloc_parts cfg np w =
       (False, w\<lparr>heap := hp, mallocs := mallocs w @ [(bytes3 np, False)],
                 P := (P w)\<lparr>Vel := None\<rparr>\<rparr>)"
  by (simp add: alloc_parts_def alloc_requests_def malloc_def)

lemma new_mallocs_load_snapshot:
  assumes "resolve_NumPart cfg snap S M \<noteq> 0"
  shows "new_mallocs w (snd (load_snapshot cfg snap S M w)) \<noteq> []"
proof -
  let ?n = "resolve_NumPart cfg snap S M"
  let ?w = "header_scalars snap w"
  have m0: "mallocs ?w = mallocs w" by (simp add: header_scalars_def Let_def)
  have grow: "drop (length (mallocs w)) (mallocs w1) \<noteq> []"
    if "alloc_parts cfg (to_int32 ?n) ?w = (ok, w1)" for ok w1
  proof -
    from that have "alloc_chain (alloc_requests cfg (to_int32 ?n)) ?w = (ok, w1)"
      by (simp add: alloc_parts_def)
    from alloc_chain_log [OF this] m0 obtain log where
      l: "mallocs w1 = mallocs w @ log" "\<not> ok \<longleftrightarrow> (\<exists>e\<in>set log. \<not> snd e)"
         "ok \<longleftrightarrow> length log = length (alloc_requests cfg (to_int32 ?n)) \<and> (\<forall>e\<in>set log. snd e)"
      by auto
    have "log \<noteq> []"
    proof (cases ok)
      case True
      with l(3) have "length log = length (alloc_requests cfg (to_int32 ?n))"
        by simp
      then show ?thesis by (auto simp: length_alloc_requests split: if_splits)
    next
      case False
      with l(2) show ?thesis by auto
    qed
    with l(1) show ?thesis by simp
  qed
  have k: "keeps mallocs w1 (load_blocks cfg snap S ?n w1)" for w1
    by (rule keeps_load_blocks) simp_all
  show ?thesis
  proof (cases rule: load_snapshot_cases [of cfg snap S M w])
    case zero
    with assms show ?thesis by simp
  next
    case (nomem w1)
    with grow show ?thesis by (simp add: new_mallocs_def)
  next
    case (stopped w1 r w')
    with grow [OF stopped(2)] k [of w1] show ?thesis by (simp add: new_mallocs_def keeps_def)
  next
    case (returned w1 w')
    with grow [OF returned(2)] k [of w1] show ?thesis by (simp add: new_mallocs_def keeps_def)
  qed
qed

lemma load_snapshot_beyond:
  assumes "GetNpart snap (PARTTYPE cfg) < S"
  shows "resolve_NumPart cfg snap S M < 0"
    and "fst (load_snapshot cfg snap S M w) \<noteq> Returned 0"
    and "new_mallocs w (snd (load_snapshot cfg snap S M w)) \<noteq> []"
proof -
  from assms show neg: "resolve_NumPart cfg snap S M < 0"
    by (simp add: resolve_NumPart_def min_def)
  then show "new_mallocs w (snd (load_snapshot cfg snap S M w)) \<noteq> []"
    by (intro new_mallocs_load_snapshot) simp
  from neg show "fst (load_snapshot cfg snap S M w) \<noteq> Returned 0"
    by (cases rule: load_snapshot_cases [of cfg snap S M w]) auto
qed

subsection \<open>What a passed or failed uniformity check tells\<close>

lemma check_and_omegab_Inr:
  assumes "check_and_omegab snap n w = Inr w'"
  shows "\<exists>m. Mass (P w) = Some m \<and> m \<noteq> [] \<and> \<not> loop_overflows n
    \<and> (\<forall>i\<in>set (loop_indices n). i < length m \<and> m ! i = m ! 0)
    \<and> w' = w\<lparr>omegab := m ! 0 / (m ! 0 + mass (GetHeader snap) 1) * Omega0 (GetHeader snap)\<rparr>"
proof -
  from assms obtain m where m: "Mass (P w) = Some m"
    by (cases "Mass (P w)") (auto simp: check_and_omegab_def)
  from assms m have u: "check_Mass (loop_indices n) m = Uniform"
    by (cases "check_Mass (loop_indices n) m") (auto simp: check_and_omegab_def)
  from assms m u have rest: "\<not> loop_overflows n" "m \<noteq> []"
    "w' = w\<lparr>omegab := m ! 0 / (m ! 0 + mass (GetHeader snap) 1) * Omega0 (GetHeader snap)\<rparr>"
    by (auto simp: check_and_omegab_def split: if_splits)
  from u have "\<forall>i\<in>set (loop_indices n). i < length m \<and> m ! i = m ! 0"
    by (simp only: check_Mass_Uniform)
  with m rest show ?thesis by blast
qed

lemma check_and_omegab_Exited:
  assumes "check_and_omegab snap n w = Inl (Exited 0, w')"
  shows "w' = w \<and> (\<exists>m i. Mass (P w) = Some m \<and> i \<in> set (loop_indices n) \<and> i < length m
           \<and> m ! i \<noteq> m ! 0)"
proof -
  from assms obtain m where m: "Mass (P w) = Some m"
    by (cases "Mass (P w)") (auto simp: check_and_omegab_def)
  from assms m obtain i where c: "check_Mass (loop_indices n) m = Changed i"
    by (cases "check_Mass (loop_indices n) m") (auto simp: check_and_omegab_def split: if_splits)
  from check_Mass_Changed [OF c] check_and_omegab_Inl [OF assms] m show ?thesis by blast
qed

lemma load_gas_keeps_Mass:
  "keeps (\<lambda>w. (Mass (P w), omegab w)) w (load_gas cfg snap S n w)"
proof (rule keeps_load_gas)
  fix w :: world and s x
  assume "s \<in> gas_slots"
  then show "(Mass (P (w\<lparr>P := upd s x (P w)\<rparr>)), omegab (w\<lparr>P := upd s x (P w)\<rparr>))
      = (Mass (P w), omegab w)"
    by (auto simp: gas_slots_def)
qed simp

lemma in_loop_indices: "\<not> loop_overflows n \<Longrightarrow> i < nat n \<Longrightarrow> i \<in> set (loop_indices n)"
  by (simp add: set_loop_indices_fits)

lemma loop_indices_lt: "i \<in> set (loop_indices n) \<Longrightarrow> i < nat n"
  by (auto simp: set_loop_indices)

text \<open>A call that returns a positive count has passed the check.\<close>

lemma load_snapshot_Returned:
  assumes "load_snapshot cfg snap S M w = (Returned n, w')" "0 < n"
  shows "n = resolve_NumPart cfg snap S M
    \<and> (\<exists>m. Mass (P w') = Some m \<and> nat n \<le> length m \<and> (\<forall>i<nat n. m ! i = m ! 0)
          \<and> omegab w' = m ! 0 / (m ! 0 + mass (GetHeader snap) 1) * Omega0 (GetHeader snap))"
proof (cases rule: load_snapshot_cases [of cfg snap S M w])
  case zero
  with assms show ?thesis by simp
next
  case (nomem w1)
  with assms show ?thesis by simp
next
  case (stopped w1 r w'')
  with assms show ?thesis by auto
next
  case (returned w1 w'')
  with assms have n: "n = resolve_NumPart cfg snap S M" and w'': "w'' = w'" by simp_all
  from returned(3) n w'' have "load_blocks cfg snap S n w1 = Inr w'" by simp
  then obtain wa wb w3 w4 where
    c: "check_and_omegab snap n w3 = Inr w4" and g: "load_gas cfg snap S n w4 = Inr w'"
    by (rule load_blocks_Inr)
  from check_and_omegab_Inr [OF c] obtain m where m: "Mass (P w3) = Some m" "m \<noteq> []"
    "\<not> loop_overflows n"
    "\<forall>i\<in>set (loop_indices n). i < length m \<and> m ! i = m ! 0"
    "w4 = w3\<lparr>omegab := m ! 0 / (m ! 0 + mass (GetHeader snap) 1) * Omega0 (GetHeader snap)\<rparr>"
    by blast
  from keepsD_Inr [OF load_gas_keeps_Mass g] m(1) m(5)
  have f: "Mass (P w') = Some m"
    "omegab w' = m ! 0 / (m ! 0 + mass (GetHeader snap) 1) * Omega0 (GetHeader snap)"
    by simp_all
  have u: "i < length m \<and> m ! i = m ! 0" if "i < nat n" for i
    using m(4) in_loop_indices [OF m(3) that] by blast
  from assms(2) have "nat n - 1 < nat n" by simp
  from u [OF this] assms(2) have "nat n \<le> length m" by linarith
  with n f u show ?thesis by blast
qed

subsection \<open>The skip mask of the MASS read\<close>

lemma minus_power_unset_bit: "bit (x::int) j \<Longrightarrow> x - 2 ^ j = unset_bit j x"
  by (simp add: unset_bit_eq)

lemma bit_skip_loop:
  "distinct js \<Longrightarrow> \<forall>j\<in>set js. mass hdr j \<noteq> 0 \<longrightarrow> bit x j \<Longrightarrow>
     bit (skip_loop hdr js x) i \<longleftrightarrow> bit x i \<and> \<not> (i \<in> set js \<and> mass hdr i \<noteq> 0)"
proof (induction js arbitrary: x)
  case Nil
  then show ?case by simp
next
  case (Cons j js)
  show ?case
  proof (cases "mass hdr j \<noteq> 0")
    case True
    with Cons.prems have bj: "bit x j" by simp
    let ?x = "unset_bit j x"
    from True bj have s: "skip_loop hdr (j # js) x = skip_loop hdr js ?x"
      by (simp add: minus_power_unset_bit)
    from Cons.prems have d: "distinct js" and nj: "j \<notin> set js" by simp_all
    have "\<forall>k\<in>set js. mass hdr k \<noteq> 0 \<longrightarrow> bit ?x k"
      using Cons.prems(2) nj by (auto simp: bit_unset_bit_iff)
    from Cons.IH [OF d this] s True show ?thesis
      by (auto simp: bit_unset_bit_iff)
  next
    case False
    from Cons.prems have d: "distinct js" and a: "\<forall>k\<in>set js. mass hdr k \<noteq> 0 \<longrightarrow> bit x k"
      by simp_all
    from Cons.IH [OF d a] False show ?thesis by auto
  qed
qed

lemma bit_type_mask:
  assumes "PARTTYPE cfg < N_TYPE"
  shows "bit (type_mask cfg) i \<longleftrightarrow> i < N_TYPE \<and> i \<noteq> PARTTYPE cfg"
proof -
  have m: "(2::int) ^ N_TYPE - 1 = mask N_TYPE" by (simp add: mask_eq_exp_minus_1)
  from assms have "bit (mask N_TYPE :: int) (PARTTYPE cfg)" by (simp add: bit_mask_iff)
  then have "type_mask cfg = unset_bit (PARTTYPE cfg) (mask N_TYPE)"
    unfolding type_mask_def m by (rule minus_power_unset_bit)
  then show ?thesis by (auto simp: bit_unset_bit_iff bit_mask_iff)
qed

lemma bit_mass_skip:
  assumes "PARTTYPE cfg < N_TYPE" "mass hdr (PARTTYPE cfg) = 0"
  shows "bit (mass_skip cfg hdr) i \<longleftrightarrow> i < N_TYPE \<and> i \<noteq> PARTTYPE cfg \<and> mass hdr i = 0"
proof -
  have "\<forall>j\<in>set [0..<N_TYPE]. mass hdr j \<noteq> 0 \<longrightarrow> bit (type_mask cfg) j"
    using assms by (auto simp: bit_type_mask)
  from bit_skip_loop [OF _ this, of i] assms(1) show ?thesis
    by (auto simp: mass_skip_def bit_type_mask)
qed

subsection \<open>The mass stage\<close>

lemma load_Mass_fill_Inr:
  assumes "mass (GetHeader snap) (PARTTYPE cfg) \<noteq> 0" "0 < n"
    "load_Mass cfg snap S n w = Inr w'"
  shows "\<exists>m'. Mass (P w') = Some m'
    \<and> (\<forall>i<nat n. i < length m' \<and> m' ! i = to_float (mass (GetHeader snap) (PARTTYPE cfg)))"
proof -
  let ?v = "to_float (mass (GetHeader snap) (PARTTYPE cfg))"
  from assms(2) have ne: "loop_indices n \<noteq> []" by (simp add: loop_indices_Nil)
  from assms ne obtain m where m: "Mass (P w) = Some m"
    by (cases "Mass (P w)") (auto simp: load_Mass_def)
  from assms m obtain m' where f: "fill_Mass ?v (loop_indices n) m = Some m'"
    by (cases "fill_Mass ?v (loop_indices n) m") (auto simp: load_Mass_def)
  from assms m f have o: "\<not> loop_overflows n" and w': "w' = w\<lparr>P := (P w)\<lparr>Mass := Some m'\<rparr>\<rparr>"
    by (auto simp: load_Mass_def split: if_splits)
  from fill_Mass_SomeD [OF f]
  have "length m' = length m" "\<forall>i\<in>set (loop_indices n). i < length m \<and> m' ! i = ?v" by auto
  with o have "\<forall>i<nat n. i < length m' \<and> m' ! i = ?v"
    by (simp add: set_loop_indices_fits)
  with w' show ?thesis by simp
qed

lemma keeps_load_Mass_fill:
  assumes "mass (GetHeader snap) (PARTTYPE cfg) \<noteq> 0"
    and p: "\<And>w x. g (w\<lparr>P := upd Mass_slot x (P w)\<rparr>) = g w"
  shows "keeps g w (load_Mass cfg snap st n w)"
proof -
  have "g (w\<lparr>P := (P w)\<lparr>Mass := x\<rparr>\<rparr>) = g w" for x
    using p [where w = w and x = x] by simp
  with assms(1) show ?thesis
    by (auto simp: load_Mass_def keeps_def split: option.splits)
qed

lemma keeps_MASS_reads_load_blocks:
  assumes "mass (GetHeader snap) (PARTTYPE cfg) \<noteq> 0"
  shows "keeps MASS_reads w (load_blocks cfg snap S n w)"
  unfolding load_blocks_def
  by (intro keeps_andthen keeps_GetBlock_into keeps_load_Mass_fill keeps_check_and_omegab
        keeps_load_gas assms)
     (auto simp: MASS_reads_def gas_tags_def)

lemma MASS_reads_frame:
  "reads w' = reads w \<Longrightarrow> MASS_reads w' = MASS_reads w"
  by (simp add: MASS_reads_def)

lemma reads_header_scalars: "reads (header_scalars snap w) = reads w"
  by (simp add: header_scalars_def Let_def)

lemma reads_alloc_parts: "alloc_parts cfg np w = (ok, w') \<Longrightarrow> reads w' = reads w"
  by (simp add: alloc_parts_def alloc_chain_frame)

lemma MASS_logged_read_plan:
  "filter (\<lambda>e. fst e = ''MASS'') (logged n S (read_plan cfg hdr)) = logged n S (mass_plan cfg hdr)"
  by (simp add: logged_def read_plan_def mass_plan_def gas_plan_def cooling_plan_def Ne_plan_def)

lemma load_snapshot_returned_stages:
  assumes "load_snapshot cfg snap S M w = (Returned n, w')" "n \<noteq> 0"
  shows "\<exists>w2 w3. reads w' = reads w @ logged n S (read_plan cfg (GetHeader snap))
           \<and> load_Mass cfg snap S n w2 = Inr w3 \<and> Mass (P w') = Mass (P w3)"
proof (cases rule: load_snapshot_cases [of cfg snap S M w])
  case zero
  with assms show ?thesis by simp
next
  case (nomem w1)
  with assms show ?thesis by simp
next
  case (stopped w1 r w'')
  with assms show ?thesis by auto
next
  case (returned w1 w'')
  with assms have b: "load_blocks cfg snap S n w1 = Inr w'" by simp
  from reads_alloc_parts [OF returned(2)] have r1: "reads w1 = reads w"
    by (simp add: reads_header_scalars)
  from reads_load_blocks [OF b] r1
  have rd: "reads w' = reads w @ logged n S (read_plan cfg (GetHeader snap))" by simp
  from b obtain wa w2 w3 w4 where
    m: "load_Mass cfg snap S n w2 = Inr w3" and
    c: "check_and_omegab snap n w3 = Inr w4" and g: "load_gas cfg snap S n w4 = Inr w'"
    by (rule load_blocks_Inr)
  from check_and_omegab_Inr [OF c] obtain x where "w4 = w3\<lparr>omegab := x\<rparr>" by blast
  then have "Mass (P w4) = Mass (P w3)" by simp
  with keepsD_Inr [OF load_gas_keeps_Mass g] have "Mass (P w') = Mass (P w3)" by simp
  with rd m show ?thesis by blast
qed

lemma load_snapshot_exited_stages:
  assumes "load_snapshot cfg snap S M w = (Exited 0, w')"
  shows "reads w' = reads w
           @ logged (resolve_NumPart cfg snap S M) S
               ([(''POS '', type_mask cfg), (''VEL '', type_mask cfg)]
                @ mass_plan cfg (GetHeader snap))"
proof (cases rule: load_snapshot_cases [of cfg snap S M w])
  case zero
  with assms show ?thesis by simp
next
  case (nomem w1)
  with assms show ?thesis by simp
next
  case (stopped w1 r w'')
  let ?n = "resolve_NumPart cfg snap S M"
  from stopped assms have b: "load_blocks cfg snap S ?n w1 = Inl (Exited 0, w')" by simp
  from reads_alloc_parts [OF stopped(2)] have r1: "reads w1 = reads w"
    by (simp add: reads_header_scalars)
  from b obtain wa wb where
    "GetBlock_into snap ''POS '' Pos_slot ?n S (type_mask cfg) w1 = Inr wa"
    "GetBlock_into snap ''VEL '' Vel_slot ?n S (type_mask cfg) wa = Inr wb"
    "load_Mass cfg snap S ?n wb = Inr w'"
    by (rule load_blocks_Exited)
  from reads_GetBlock_into [OF this(1)] reads_GetBlock_into [OF this(2)] reads_load_Mass [OF this(3)]
    r1 show ?thesis
    by (simp add: logged_def)
next
  case (returned w1 w'')
  with assms show ?thesis by simp
qed

lemma MASS_reads_load_snapshot:
  assumes "mass (GetHeader snap) (PARTTYPE cfg) \<noteq> 0"
  shows "MASS_reads (snd (load_snapshot cfg snap S M w)) = MASS_reads w"
proof -
  let ?n = "resolve_NumPart cfg snap S M"
  have h: "MASS_reads (header_scalars snap w) = MASS_reads w"
    by (rule MASS_reads_frame) (rule reads_header_scalars)
  have a: "MASS_reads w1 = MASS_reads w"
    if "alloc_parts cfg (to_int32 ?n) (header_scalars snap w) = (ok, w1)" for ok w1
    using MASS_reads_frame [OF reads_alloc_parts [OF that]] h by (rule trans)
  have k: "keeps MASS_reads w1 (load_blocks cfg snap S ?n w1)" for w1
    by (rule keeps_MASS_reads_load_blocks [OF assms])
  show ?thesis
  proof (cases rule: load_snapshot_cases [of cfg snap S M w])
    case zero
    from zero(2) h show ?thesis by simp
  next
    case (nomem w1)
    from a [OF nomem(2)] nomem(3) show ?thesis by simp
  next
    case (stopped w1 r w')
    from keepsD_Inl [OF k stopped(3)] a [OF stopped(2)] have "MASS_reads w' = MASS_reads w"
      by (rule trans)
    with stopped(4) show ?thesis by simp
  next
    case (returned w1 w')
    from keepsD_Inr [OF k returned(3)] a [OF returned(2)] have "MASS_reads w' = MASS_reads w"
      by (rule trans)
    with returned(4) show ?thesis by simp
  qed
qed

subsection \<open>The electron fraction\<close>

lemma accumulate_Ne_Inr:
  assumes "accumulate_Ne g n w = Inr w'" "0 < n"
  shows "\<exists>ne hs ne'. Ne (P w) = Some ne \<and> h (P w) = Some hs
    \<and> w' = w\<lparr>P := (P w)\<lparr>Ne := Some ne'\<rparr>\<rparr> \<and> length ne' = length ne
    \<and> (\<forall>k<nat n. k < length ne \<and> k < length hs \<and> ne' ! k = ne ! k + g (hs ! k))"
proof -
  from assms(2) have nn: "loop_indices n \<noteq> []" by (simp add: loop_indices_Nil)
  from assms nn obtain ne hs where b: "Ne (P w) = Some ne" "h (P w) = Some hs"
    by (cases "Ne (P w)"; cases "h (P w)") (auto simp: accumulate_Ne_def)
  from assms b obtain ne' where f: "add_into g (loop_indices n) ne hs = Some ne'"
    by (cases "add_into g (loop_indices n) ne hs") (auto simp: accumulate_Ne_def)
  from assms b f have o: "\<not> loop_overflows n" and w': "w' = w\<lparr>P := (P w)\<lparr>Ne := Some ne'\<rparr>\<rparr>"
    by (auto simp: accumulate_Ne_def split: if_splits)
  from add_into_SomeD [OF f distinct_loop_indices]
  have "length ne' = length ne"
    "\<forall>k\<in>set (loop_indices n). k < length ne \<and> k < length hs \<and> ne' ! k = ne ! k + g (hs ! k)"
    by auto
  with o have "length ne' = length ne"
    "\<forall>k<nat n. k < length ne \<and> k < length hs \<and> ne' ! k = ne ! k + g (hs ! k)"
    by (simp_all add: set_loop_indices_fits)
  with b w' show ?thesis by blast
qed

lemma nth_written: "k < length d \<Longrightarrow> (d @ drop (length d) buf) ! k = d ! k"
  by (simp add: nth_append)

lemma load_Ne_sum:
  assumes l: "load_Ne cfg snap S n w = Inr w'" and fmt: "\<not> GADGET3 cfg" and n: "0 < n"
  shows "\<exists>ne. Ne (P w') = Some ne
    \<and> (\<forall>k<nat n. k < length ne
          \<and> (k < length (GetBlock snap ''NHP '' n S 0) \<and> k < length (GetBlock snap ''NHEP'' n S 0)
               \<and> k < length (GetBlock snap ''NHEQ'' n S 0)
             \<longrightarrow> ne ! k = GetBlock snap ''NHP '' n S 0 ! k + GetBlock snap ''NHEP'' n S 0 ! k
                            + 2 * GetBlock snap ''NHEQ'' n S 0 ! k))"
proof -
  let ?a = "GetBlock snap ''NHP '' n S 0"
  let ?b = "GetBlock snap ''NHEP'' n S 0"
  let ?c = "GetBlock snap ''NHEQ'' n S 0"
  from l fmt obtain w1 w2 w3 w4 where
    1: "GetBlock_into snap ''NHP '' Ne_slot n S 0 w = Inr w1" and
    2: "GetBlock_into snap ''NHEP'' h_slot n S 0 w1 = Inr w2" and
    3: "accumulate_Ne (\<lambda>x. x) n w2 = Inr w3" and
    4: "GetBlock_into snap ''NHEQ'' h_slot n S 0 w3 = Inr w4" and
    5: "accumulate_Ne (\<lambda>x. 2 * x) n w4 = Inr w'"
    by (auto simp: load_Ne_def andthen_Inr)
  from 1 obtain b1 where ne1: "Ne (P w1) = Some (?a @ drop (length ?a) b1)"
    by (auto simp: GetBlock_into_Inr)
  from 2 obtain b2 where
    hs2: "h (P w2) = Some (?b @ drop (length ?b) b2)" and ne2: "Ne (P w2) = Ne (P w1)"
    by (auto simp: GetBlock_into_Inr)
  from accumulate_Ne_Inr [OF 3 n] ne1 ne2 hs2 obtain ne3 where
    ne3: "Ne (P w3) = Some ne3" and
    v3: "\<forall>k<nat n. ne3 ! k = (?a @ drop (length ?a) b1) ! k + (?b @ drop (length ?b) b2) ! k"
    by auto
  from 4 obtain b4 where
    hs4: "h (P w4) = Some (?c @ drop (length ?c) b4)" and ne4: "Ne (P w4) = Ne (P w3)"
    by (auto simp: GetBlock_into_Inr)
  from accumulate_Ne_Inr [OF 5 n] ne3 ne4 hs4 obtain ne5 where
    ne5: "Ne (P w') = Some ne5" and l5: "length ne5 = length ne3" and
    v5: "\<forall>k<nat n. k < length ne3 \<and> ne5 ! k = ne3 ! k + 2 * (?c @ drop (length ?c) b4) ! k"
    by auto
  have "k < length ne5
      \<and> (k < length ?a \<and> k < length ?b \<and> k < length ?c \<longrightarrow> ne5 ! k = ?a ! k + ?b ! k + 2 * ?c ! k)"
    if k: "k < nat n" for k
  proof -
    from v5 k l5 have a: "k < length ne5" "ne5 ! k = ne3 ! k + 2 * (?c @ drop (length ?c) b4) ! k"
      by simp_all
    from v3 k have b: "ne3 ! k = (?a @ drop (length ?a) b1) ! k + (?b @ drop (length ?b) b2) ! k"
      by simp
    from a b show ?thesis by (simp add: nth_written)
  qed
  with ne5 show ?thesis by blast
qed

lemma keeps_Ne_GetBlock_into:
  "s \<noteq> Ne_slot \<Longrightarrow> keeps (\<lambda>w. Ne (P w)) w (GetBlock_into snap tag s c st k w)"
  by (rule keeps_GetBlock_into) (cases s; simp)+

lemma load_gas_Ne:
  assumes l: "load_gas cfg snap S n w = Inr w'" and n: "0 < n"
    and gas: "PARTTYPE cfg = 0" and cool: "flag_cooling (GetHeader snap) \<noteq> 0"
    and fmt: "\<not> GADGET3 cfg"
  shows "\<exists>ne. Ne (P w') = Some ne
    \<and> (\<forall>k<nat n. k < length ne
          \<and> (k < length (GetBlock snap ''NHP '' n S 0) \<and> k < length (GetBlock snap ''NHEP'' n S 0)
               \<and> k < length (GetBlock snap ''NHEQ'' n S 0)
             \<longrightarrow> ne ! k = GetBlock snap ''NHP '' n S 0 ! k + GetBlock snap ''NHEP'' n S 0 ! k
                            + 2 * GetBlock snap ''NHEQ'' n S 0 ! k))"
proof -
  from l gas cool obtain w1 w2 where
    c: "load_cooling cfg snap S n w1 = Inr w2" and
    hs: "GetBlock_into snap ''HSML'' h_slot n S 0 w2 = Inr w'"
    by (auto simp: load_gas_def andthen_Inr)
  from c obtain w3 w4 where
    e: "load_Ne cfg snap S n w1 = Inr w3" and
    he: "(if HELIUM cfg then GetBlock_into snap ''NHE '' NHep_slot n S 0 w3 else Inr w3) = Inr w4"
    and nh: "GetBlock_into snap ''NH  '' NH0_slot n S 0 w4 = Inr w2"
    by (auto simp: load_cooling_def andthen_Inr)
  have "keeps (\<lambda>w. Ne (P w)) w3
      (if HELIUM cfg then GetBlock_into snap ''NHE '' NHep_slot n S 0 w3 else Inr w3)"
    by (intro keeps_if keeps_Ne_GetBlock_into keeps_Inr) simp
  from keepsD_Inr [OF this he] have 1: "Ne (P w4) = Ne (P w3)" .
  from keepsD_Inr [OF keeps_Ne_GetBlock_into nh] have 2: "Ne (P w2) = Ne (P w4)" by simp
  from keepsD_Inr [OF keeps_Ne_GetBlock_into hs] have 3: "Ne (P w') = Ne (P w2)" by simp
  from 1 2 3 have "Ne (P w') = Ne (P w3)" by simp
  with load_Ne_sum [OF e fmt n] show ?thesis by simp
qed

subsection \<open>A run on stored, non-uniform masses\<close>

lemma run_disk:
  "\<exists>w'. load_snapshot cfg_gas snap_disk 0 0 (fresh_world (replicate 7 roomy)) = (Returned 2, w')
     \<and> (\<forall>s\<in>populated cfg_gas (GetHeader snap_disk).
           field_of w' s = Some (field_data cfg_gas snap_disk 0 2 s))"
proof -
  have r: "resolve_NumPart cfg_gas snap_disk 0 0 = 2"
    by (simp add: resolve_NumPart_def cfg_gas_def snap_disk_def snap_two_def)
  have g: "fst (alloc_parts cfg_gas (to_int32 2)
      (header_scalars snap_disk (fresh_world (replicate 7 roomy))))"
    by (rule alloc_parts_grants)
       (simp_all add: alloc_requests_def cfg_gas_def heap_header_scalars fresh_world_def roomy_def
          bytes3_def bytes1_def to_int32_id)
  have f: "full_reads cfg_gas snap_disk 0 2" by code_simp
  have m: "mass_data cfg_gas snap_disk 0 2 = [1 / 10, 1 / 10]" by code_simp
  have u: "\<forall>i<nat 2. mass_data cfg_gas snap_disk 0 2 ! i = mass_data cfg_gas snap_disk 0 2 ! 0"
    unfolding m by (simp add: less_Suc_eq numeral_2_eq_2)
  from load_snapshot_run [OF r _ _ g f] show ?thesis
    unfolding if_P [OF u] by simp
qed

lemma to_float_double_tenth: "to_float double_tenth = 13421773 / 134217728"
  by code_simp

section \<open>Paging through a snapshot\<close>

lemma block_slice_split:
  "block_slice disk tag 100 0 k = block_slice disk tag 50 0 k @ block_slice disk tag 50 50 k"
proof -
  have "block_width tag * nat 100 = block_width tag * nat 50 + block_width tag * nat 50" by simp
  then show ?thesis
    unfolding block_slice_def by (simp only: take_add) simp
qed

lemma take_full_halves:
  fixes w :: nat
  assumes "length (take (w * 100) xs) = w * 100"
  shows "length (take (w * 50) xs) = w * 50" "length (take (w * 50) (drop (w * 50) xs)) = w * 50"
proof -
  from assms have "min (length xs) (w * 100) = w * 100" by simp
  then have "w * 100 \<le> length xs" by linarith
  then show "length (take (w * 50) xs) = w * 50"
    "length (take (w * 50) (drop (w * 50) xs)) = w * 50"
    by simp_all
qed

lemma block_slice_full_halves:
  assumes "length (block_slice disk tag 100 0 k) = block_width tag * nat 100"
  shows "length (block_slice disk tag 50 0 k) = block_width tag * nat 50"
    and "length (block_slice disk tag 50 50 k) = block_width tag * nat 50"
  using assms take_full_halves [of "block_width tag"
      "concat (map (disk tag) (filter (\<lambda>t. \<not> bit k t) [0..<N_TYPE]))"]
  by (simp_all add: block_slice_def)

lemma full_reads_halves:
  assumes "GetBlock snap = block_slice disk" "full_reads cfg snap 0 100"
  shows "full_reads cfg snap 0 50" "full_reads cfg snap 50 50"
  using assms block_slice_full_halves [of disk]
  by (auto simp: full_reads_def)

lemma Ne_sum_split:
  assumes "length a1 = 50" "length b1 = 50" "length c1 = 50"
    "length a2 = 50" "length b2 = 50" "length c2 = 50"
  shows "map (\<lambda>k. (a1 @ a2) ! k + (b1 @ b2) ! k + 2 * (c1 @ c2) ! k) [0..<nat 100]
    = map (\<lambda>k. a1 ! k + b1 ! k + 2 * c1 ! k) [0..<nat 50]
      @ map (\<lambda>k. a2 ! k + b2 ! k + 2 * c2 ! k) [0..<nat 50]" (is "?l = ?r")
proof (rule nth_equalityI)
  show "length ?l = length ?r" by simp
  fix i assume "i < length ?l"
  then have i: "i < 100" by simp
  show "?l ! i = ?r ! i"
  proof (cases "i < 50")
    case True
    with assms i show ?thesis by (simp add: nth_append)
  next
    case False
    with i have "i - 50 < 50" by simp
    with assms i False show ?thesis by (simp add: nth_append)
  qed
qed

lemma field_data_split:
  assumes rd: "GetBlock snap = block_slice disk" and full: "full_reads cfg snap 0 100"
    and s: "s \<in> populated cfg (GetHeader snap)"
  shows "field_data cfg snap 0 100 s = field_data cfg snap 0 50 s @ field_data cfg snap 50 50 s"
proof (cases s)
  case Mass_slot
  have "replicate (nat 100) x = replicate (nat 50) x @ replicate (nat 50) x" for x :: real
    by (simp add: replicate_add [symmetric])
  with Mass_slot rd show ?thesis
    by (simp add: mass_data_def block_slice_split)
next
  case Ne_slot
  show ?thesis
  proof (cases "GADGET3 cfg")
    case True
    with Ne_slot rd show ?thesis by (simp add: Ne_data_def block_slice_split)
  next
    case False
    with s Ne_slot have "set (Ne_plan cfg) \<subseteq> set (read_plan cfg (GetHeader snap))"
      by (auto simp: populated_def read_plan_def gas_plan_def cooling_plan_def split: if_splits)
    with False full rd have
      "length (block_slice disk ''NHP '' 100 0 0) = block_width ''NHP '' * nat 100"
      "length (block_slice disk ''NHEP'' 100 0 0) = block_width ''NHEP'' * nat 100"
      "length (block_slice disk ''NHEQ'' 100 0 0) = block_width ''NHEQ'' * nat 100"
      by (auto simp: full_reads_def Ne_plan_def)
    from this [THEN block_slice_full_halves(1)] this [THEN block_slice_full_halves(2)]
    have l: "length (block_slice disk ''NHP '' 50 0 0) = 50"
      "length (block_slice disk ''NHEP'' 50 0 0) = 50"
      "length (block_slice disk ''NHEQ'' 50 0 0) = 50"
      "length (block_slice disk ''NHP '' 50 50 0) = 50"
      "length (block_slice disk ''NHEP'' 50 50 0) = 50"
      "length (block_slice disk ''NHEQ'' 50 50 0) = 50"
      by (simp_all add: block_width_def)
    from False Ne_slot rd Ne_sum_split [OF l(1) l(2) l(3) l(4) l(5) l(6)] show ?thesis
      by (simp add: Ne_data_def block_slice_split [symmetric])
  qed
qed (simp_all add: rd block_slice_split)

lemma uniform_halves:
  assumes u: "\<forall>i<p + q. m ! i = m ! 0" and m: "m = a @ b"
    and l: "length a = p" "length b = q" and p: "0 < p"
  shows "\<forall>i<p. a ! i = a ! 0" "\<forall>i<q. b ! i = b ! 0"
proof -
  have a: "a ! i = m ! i" if "i < p" for i
    unfolding m using that l by (simp add: nth_append)
  have b: "b ! i = m ! (p + i)" if "i < q" for i
    unfolding m using that l by (simp add: nth_append)
  have m0: "m ! j = m ! 0" if "j < p + q" for j
    using u that by blast
  show "\<forall>i<p. a ! i = a ! 0"
  proof (intro allI impI)
    fix i assume i: "i < p"
    then have "m ! i = m ! 0" by (intro m0) simp
    with a [OF i] a [OF p] show "a ! i = a ! 0" by (rule_tac trans [OF _ sym]) auto
  qed
  show "\<forall>i<q. b ! i = b ! 0"
  proof (intro allI impI)
    fix i assume i: "i < q"
    then have 0: "0 < q" by simp
    from i have 1: "m ! (p + i) = m ! 0" by (intro m0) simp
    from 0 have 2: "m ! (p + 0) = m ! 0" by (intro m0) simp
    from b [OF i] 1 have "b ! i = m ! 0" by (rule trans)
    moreover from b [OF 0] 2 have "b ! 0 = m ! 0" by (rule trans)
    ultimately show "b ! i = b ! 0" by (rule trans [OF _ sym])
  qed
qed

lemma load_snapshot_allocated:
  assumes "load_snapshot cfg snap S M w = (r, w')" "r \<noteq> Exited 1"
    "resolve_NumPart cfg snap S M \<noteq> 0"
  shows "fst (alloc_parts cfg (to_int32 (resolve_NumPart cfg snap S M)) (header_scalars snap w))"
  using assms by (cases rule: load_snapshot_cases [of cfg snap S M w]) auto

lemma load_Returned_count:
  "load_snapshot cfg snap S M w = (Returned k, w') \<Longrightarrow> k = resolve_NumPart cfg snap S M"
  by (cases rule: load_snapshot_cases [of cfg snap S M w]) auto

lemma load_snapshot_full_fields:
  assumes l: "load_snapshot cfg snap S M w = (Returned n, w')" and n: "0 < n" "n < 536870912"
    and full: "full_reads cfg snap S n"
  shows "(\<forall>i<nat n. mass_data cfg snap S n ! i = mass_data cfg snap S n ! 0)
    \<and> (\<forall>s\<in>populated cfg (GetHeader snap). field_of w' s = Some (field_data cfg snap S n s))"
proof -
  from load_Returned_count [OF l] have r: "resolve_NumPart cfg snap S M = n" by simp
  with n have nz: "resolve_NumPart cfg snap S M \<noteq> 0" by simp
  from load_snapshot_allocated [OF l _ nz] r
  have a: "fst (alloc_parts cfg (to_int32 n) (header_scalars snap w))" by simp
  note run = load_snapshot_run [OF r n a full]
  show ?thesis
  proof (cases "\<forall>i<nat n. mass_data cfg snap S n ! i = mass_data cfg snap S n ! 0")
    case True
    from run obtain w'' where
      "load_snapshot cfg snap S M w = (Returned n, w'')"
      "\<forall>s\<in>populated cfg (GetHeader snap). field_of w'' s = Some (field_data cfg snap S n s)"
      unfolding if_P [OF True] by blast
    with l have "\<forall>s\<in>populated cfg (GetHeader snap). field_of w' s = Some (field_data cfg snap S n s)"
      by simp
    with True show ?thesis by blast
  next
    case False
    from run obtain w'' where "load_snapshot cfg snap S M w = (Exited 0, w'')"
      unfolding if_not_P [OF False] by blast
    with l show ?thesis by simp
  qed
qed

lemma load_snapshot_returns:
  assumes l: "load_snapshot cfg snap S M w = (r, w')" "r \<noteq> Exited 1"
    and r: "resolve_NumPart cfg snap S M = n" and n: "0 < n" "n < 536870912"
    and full: "full_reads cfg snap S n"
    and u: "\<forall>i<nat n. mass_data cfg snap S n ! i = mass_data cfg snap S n ! 0"
  shows "r = Returned n
    \<and> (\<forall>s\<in>populated cfg (GetHeader snap). field_of w' s = Some (field_data cfg snap S n s))"
proof -
  from n r have nz: "resolve_NumPart cfg snap S M \<noteq> 0" by simp
  from load_snapshot_allocated [OF l nz] r
  have a: "fst (alloc_parts cfg (to_int32 n) (header_scalars snap w))" by simp
  from load_snapshot_run [OF r n a full] obtain w'' where
    "load_snapshot cfg snap S M w = (Returned n, w'')"
    "\<forall>s\<in>populated cfg (GetHeader snap). field_of w'' s = Some (field_data cfg snap S n s)"
    unfolding if_P [OF u] by blast
  with l(1) show ?thesis by simp
qed

subsection \<open>The hundred-particle examples\<close>

lemma grants_small:
  assumes "0 \<le> n" "n \<le> 1000"
  shows "fst (alloc_parts cfg_gas (to_int32 n) (header_scalars snap (fresh_world (replicate 7 roomy))))"
proof (rule alloc_parts_grants)
  show "length (alloc_requests cfg_gas (to_int32 n))
      \<le> length (heap (header_scalars snap (fresh_world (replicate 7 roomy))))"
    by (simp add: length_alloc_requests cfg_gas_def heap_header_scalars fresh_world_def)
  from assms have 1: "to_int32 n = n" by (simp add: to_int32_id)
  from assms have 2: "to_int32 (n * 3) = n * 3" by (simp add: to_int32_id)
  from assms have 3: "(n * 3 * 4) mod 2 ^ 64 = n * 12" "(n * 4) mod 2 ^ 64 = n * 4" by simp_all
  from assms have "nat (n * 12) \<le> 1048576" "nat (n * 4) \<le> 1048576" by simp_all
  with 1 2 3 have "roomy (bytes3 (to_int32 n)) \<noteq> None" "roomy (bytes1 (to_int32 n)) \<noteq> None"
    by (simp_all add: bytes3_def bytes1_def roomy_def)
  then show "\<forall>a\<in>set (heap (header_scalars snap (fresh_world (replicate 7 roomy)))).
      a (bytes3 (to_int32 n)) \<noteq> None \<and> a (bytes1 (to_int32 n)) \<noteq> None"
    by (simp add: heap_header_scalars fresh_world_def)
qed

lemma plan_keeps_type_0:
  assumes "PARTTYPE cfg = 0"
  shows "\<forall>e\<in>set (read_plan cfg hdr). \<not> bit (snd e) 0"
proof -
  from assms have t: "PARTTYPE cfg < N_TYPE" by (simp add: N_TYPE_def)
  from bit_type_mask [OF t, of 0] assms have 1: "\<not> bit (type_mask cfg) 0" by simp
  have 2: "\<not> bit (mass_skip cfg hdr) 0" if "mass hdr (PARTTYPE cfg) = 0"
    using bit_mass_skip [OF t that, of 0] assms by simp
  from 1 2 show ?thesis
    by (auto simp: read_plan_def mass_plan_def gas_plan_def cooling_plan_def Ne_plan_def
          split: if_splits)
qed

lemma stored_hundred:
  assumes "\<not> bit k 0"
  shows "concat (map (disk_hundred tag) (filter (\<lambda>t. \<not> bit k t) [0..<N_TYPE]))
    = disk_hundred tag 0"
proof -
  have u: "[0..<N_TYPE] = 0 # [1..<N_TYPE]" by (simp add: N_TYPE_def upt_rec)
  have "concat (map (disk_hundred tag) (filter (\<lambda>t. \<not> bit k t) [1..<N_TYPE])) = []"
    by (auto simp: disk_hundred_def)
  with assms show ?thesis unfolding u by simp
qed

lemma length_disk_hundred: "length (disk_hundred tag 0) = block_width tag * 100"
  by (simp add: disk_hundred_def block_width_def)

lemma full_hundred:
  assumes rd: "GetBlock snap = block_slice disk_hundred" and gas: "PARTTYPE cfg = 0"
    and w: "0 \<le> S" "0 \<le> n" "S + n \<le> 100"
  shows "full_reads cfg snap S n"
  unfolding full_reads_def
proof
  fix e assume "e \<in> set (read_plan cfg (GetHeader snap))"
  with plan_keeps_type_0 [OF gas] have "\<not> bit (snd e) 0" by blast
  note st = stored_hundred [OF this]
  from w have "nat S + nat n \<le> 100" by simp
  then have "block_width (fst e) * nat n \<le> block_width (fst e) * 100 - block_width (fst e) * nat S"
    by (metis add_le_imp_le_diff add_mult_distrib2 add.commute mult_le_mono2)
  then show "length (GetBlock snap (fst e) n S (snd e)) = block_width (fst e) * nat n"
    by (simp add: rd block_slice_def st length_disk_hundred)
qed

section \<open>The claims\<close>

text \<open>C1.  The claim that a start index at or beyond the particle count resolves the count
  to 0, returns 0 and allocates nothing fails beyond the count: with two particles of the
  type, start index 3 and \<open>MaxRead = 1\<close>, the resolved count is \<open>-1\<close>; the call does not
  return 0 but requests \<open>2^64 - 12\<close> bytes and, the request being refused, leaves the process
  with status 1.  (For a start index equal to the count the claim holds, see C10.)\<close>

theorem load_snapshot_past_end:
  "GetNpart snap_two (PARTTYPE cfg_gas) = 2
   \<and> resolve_NumPart cfg_gas snap_two 3 1 = - 1
   \<and> fst (load_snapshot cfg_gas snap_two 3 1 (fresh_world (replicate 7 roomy))) = Exited 1
   \<and> mallocs (snd (load_snapshot cfg_gas snap_two 3 1 (fresh_world (replicate 7 roomy))))
       = [(18446744073709551604, False)]"
proof -
  let ?w = "header_scalars snap_two (fresh_world (replicate 7 roomy))"
  have r: "resolve_NumPart cfg_gas snap_two 3 1 = - 1"
    by (simp add: resolve_NumPart_def cfg_gas_def snap_two_def)
  have b: "bytes3 (to_int32 (- 1)) = 18446744073709551604"
    by (simp add: bytes3_def to_int32_id)
  have hp: "heap ?w = roomy # replicate 6 roomy"
    by (simp add: heap_header_scalars fresh_world_def numeral_eq_Suc)
  have "roomy (bytes3 (to_int32 (- 1))) = None"
    by (simp add: b roomy_def)
  from alloc_parts_refused_first [OF hp this, of cfg_gas] r b show ?thesis
    by (simp add: load_snapshot_def Let_def cfg_gas_def snap_two_def header_scalars_def
          fresh_world_def)
qed

text \<open>C2.  The resolved count is \<open>min(MaxRead, available - StartPart)\<close> when \<open>MaxRead > 0\<close>
  and \<open>available - StartPart\<close> otherwise, and a call that returns returns this count.\<close>

theorem load_snapshot_count:
  "(0 < M \<longrightarrow> resolve_NumPart cfg snap S M = min M (GetNpart snap (PARTTYPE cfg) - S))
   \<and> (M \<le> 0 \<longrightarrow> resolve_NumPart cfg snap S M = GetNpart snap (PARTTYPE cfg) - S)
   \<and> (\<forall>k. fst (load_snapshot cfg snap S M w) = Returned k
          \<longrightarrow> k = resolve_NumPart cfg snap S M)"
proof -
  have "k = resolve_NumPart cfg snap S M" if "fst (load_snapshot cfg snap S M w) = Returned k" for k
    using that by (cases rule: load_snapshot_cases [of cfg snap S M w]) auto
  then show ?thesis by (simp add: resolve_NumPart_def)
qed

theorem load_snapshot_count_witness:
  "resolve_NumPart cfg_gas snap_two 0 1 = min 1 (2 - 0)
   \<and> resolve_NumPart cfg_gas snap_two 0 0 = 2 - 0
   \<and> fst (load_snapshot cfg_gas snap_two 0 0 (fresh_world (replicate 7 roomy))) = Returned 2"
proof -
  from run_two obtain w' where
    "load_snapshot cfg_gas snap_two 0 0 (fresh_world (replicate 7 roomy)) = (Returned 2, w')"
    by blast
  then have "fst (load_snapshot cfg_gas snap_two 0 0 (fresh_world (replicate 7 roomy))) = Returned 2"
    by simp
  with load_snapshot_count [of 1 cfg_gas snap_two 0 "fresh_world (replicate 7 roomy)"]
    load_snapshot_count [of 0 cfg_gas snap_two 0 "fresh_world (replicate 7 roomy)"]
  show ?thesis
    by (simp add: cfg_gas_def snap_two_def)
qed

text \<open>C3, as stated, fails: with the double nearest to 0.1 as the header's gas mass, the
  call returns both particles with the mass 13421773 / 134217728, the nearest float, and not
  the header's value.\<close>

theorem load_snapshot_mass_resolution_counterexample:
  "fst (load_snapshot cfg_gas snap_two 0 0 (fresh_world (replicate 7 roomy))) = Returned 2
   \<and> mass (GetHeader snap_two) (PARTTYPE cfg_gas) = 3602879701896397 / 36028797018963968
   \<and> Mass (P (snd (load_snapshot cfg_gas snap_two 0 0 (fresh_world (replicate 7 roomy)))))
       = Some [13421773 / 134217728, 13421773 / 134217728]
   \<and> (13421773 / 134217728 :: real) \<noteq> 3602879701896397 / 36028797018963968"
proof -
  from run_two obtain w' where
    l: "load_snapshot cfg_gas snap_two 0 0 (fresh_world (replicate 7 roomy)) = (Returned 2, w')"
    and f: "\<forall>s\<in>populated cfg_gas (GetHeader snap_two).
              field_of w' s = Some (field_data cfg_gas snap_two 0 2 s)" by blast
  have h: "mass (GetHeader snap_two) (PARTTYPE cfg_gas) = double_tenth"
    by (simp add: snap_two_def hdr_today_def cfg_gas_def)
  have nz: "double_tenth \<noteq> 0" by (simp add: double_tenth_def)
  from f have "field_of w' Mass_slot = Some (mass_data cfg_gas snap_two 0 2)"
    by (simp add: populated_def)
  with h nz have "Mass (P w') = Some [13421773 / 134217728, 13421773 / 134217728]"
    by (simp add: field_of_def mass_data_def to_float_double_tenth numeral_2_eq_2)
  with l h show ?thesis by (simp add: double_tenth_def)
qed

text \<open>C3, as amended.  When the header's mass entry of the target type is non-zero, the
  call adds no MASS read to the log, however it ends, and a call that returns a positive count
  has set the mass of every particle of the window to that entry converted to \<^verbatim>\<open>float\<close>
  (the entry being within the range of float): the entry itself only when a float holds it.
  When the entry is zero, a call that gets past the mass stage (it returns a non-zero count
  or ends in the uniformity check) has read the MASS block exactly once, for the resolved
  count from the start index, with a skip mask in which no type with a non-zero header mass
  is set: the mask holds exactly the other types whose header mass is zero.\<close>

theorem load_snapshot_mass_resolution:
  assumes l: "load_snapshot cfg snap S M w = (r, w')" and t: "PARTTYPE cfg < N_TYPE"
  shows "(mass (GetHeader snap) (PARTTYPE cfg) \<noteq> 0 \<longrightarrow>
            MASS_reads w' = MASS_reads w
            \<and> (0 < resolve_NumPart cfg snap S M \<and> r = Returned (resolve_NumPart cfg snap S M)
                 \<and> \<bar>mass (GetHeader snap) (PARTTYPE cfg)\<bar> \<le> float_max \<longrightarrow>
                 (\<exists>m. Mass (P w') = Some m
                    \<and> (\<forall>i<nat (resolve_NumPart cfg snap S M).
                          i < length m
                          \<and> m ! i = to_float (mass (GetHeader snap) (PARTTYPE cfg))))))
    \<and> (mass (GetHeader snap) (PARTTYPE cfg) = 0 \<and> resolve_NumPart cfg snap S M \<noteq> 0
         \<and> (r = Returned (resolve_NumPart cfg snap S M) \<or> r = Exited 0) \<longrightarrow>
            MASS_reads w' = MASS_reads w
              @ [(''MASS'', resolve_NumPart cfg snap S M, S, mass_skip cfg (GetHeader snap))]
            \<and> (\<forall>i<N_TYPE. mass (GetHeader snap) i \<noteq> 0
                   \<longrightarrow> \<not> bit (mass_skip cfg (GetHeader snap)) i)
            \<and> (\<forall>i. bit (mass_skip cfg (GetHeader snap)) i \<longleftrightarrow>
                   i < N_TYPE \<and> i \<noteq> PARTTYPE cfg \<and> mass (GetHeader snap) i = 0))"
proof (intro conjI impI)
  assume nz: "mass (GetHeader snap) (PARTTYPE cfg) \<noteq> 0"
  from MASS_reads_load_snapshot [OF nz, of S M w] l show "MASS_reads w' = MASS_reads w" by simp
  assume "0 < resolve_NumPart cfg snap S M \<and> r = Returned (resolve_NumPart cfg snap S M)
      \<and> \<bar>mass (GetHeader snap) (PARTTYPE cfg)\<bar> \<le> float_max"
  with l have l': "load_snapshot cfg snap S M w = (Returned (resolve_NumPart cfg snap S M), w')"
    and n: "0 < resolve_NumPart cfg snap S M" by simp_all
  from n have "resolve_NumPart cfg snap S M \<noteq> 0" by simp
  from load_snapshot_returned_stages [OF l' this] obtain w2 w3 where
    m: "load_Mass cfg snap S (resolve_NumPart cfg snap S M) w2 = Inr w3"
       "Mass (P w') = Mass (P w3)" by blast
  from load_Mass_fill_Inr [OF nz n m(1)] obtain m' where
    "Mass (P w3) = Some m'"
    "\<forall>i<nat (resolve_NumPart cfg snap S M).
        i < length m' \<and> m' ! i = to_float (mass (GetHeader snap) (PARTTYPE cfg))" by blast
  with m(2) have "Mass (P w') = Some m'
      \<and> (\<forall>i<nat (resolve_NumPart cfg snap S M).
            i < length m' \<and> m' ! i = to_float (mass (GetHeader snap) (PARTTYPE cfg)))" by simp
  then show "\<exists>m. Mass (P w') = Some m
          \<and> (\<forall>i<nat (resolve_NumPart cfg snap S M).
                i < length m \<and> m ! i = to_float (mass (GetHeader snap) (PARTTYPE cfg)))"
    by (rule exI)
next
  assume a: "mass (GetHeader snap) (PARTTYPE cfg) = 0 \<and> resolve_NumPart cfg snap S M \<noteq> 0
      \<and> (r = Returned (resolve_NumPart cfg snap S M) \<or> r = Exited 0)"
  then have z: "mass (GetHeader snap) (PARTTYPE cfg) = 0" by simp
  from bit_mass_skip [OF t z]
  show b: "\<forall>i. bit (mass_skip cfg (GetHeader snap)) i \<longleftrightarrow>
             i < N_TYPE \<and> i \<noteq> PARTTYPE cfg \<and> mass (GetHeader snap) i = 0" by blast
  then show "\<forall>i<N_TYPE. mass (GetHeader snap) i \<noteq> 0 \<longrightarrow> \<not> bit (mass_skip cfg (GetHeader snap)) i"
    by blast
  from a have "r = Returned (resolve_NumPart cfg snap S M) \<or> r = Exited 0" by simp
  then show "MASS_reads w' = MASS_reads w
      @ [(''MASS'', resolve_NumPart cfg snap S M, S, mass_skip cfg (GetHeader snap))]"
  proof
    assume "r = Returned (resolve_NumPart cfg snap S M)"
    with l have l': "load_snapshot cfg snap S M w = (Returned (resolve_NumPart cfg snap S M), w')"
      by simp
    from a have "resolve_NumPart cfg snap S M \<noteq> 0" by simp
    from load_snapshot_returned_stages [OF l' this]
    have rd: "reads w' = reads w
        @ logged (resolve_NumPart cfg snap S M) S (read_plan cfg (GetHeader snap))" by blast
    have "MASS_reads w' = MASS_reads w
        @ logged (resolve_NumPart cfg snap S M) S (mass_plan cfg (GetHeader snap))"
      unfolding MASS_reads_def rd filter_append MASS_logged_read_plan ..
    with z show ?thesis
      by (simp add: mass_plan_def logged_def)
  next
    assume "r = Exited 0"
    with l have l': "load_snapshot cfg snap S M w = (Exited 0, w')" by simp
    note rd = load_snapshot_exited_stages [OF l']
    have "MASS_reads w' = MASS_reads w
        @ logged (resolve_NumPart cfg snap S M) S (mass_plan cfg (GetHeader snap))"
      unfolding MASS_reads_def rd by (simp add: logged_def mass_plan_def)
    with z show ?thesis
      by (simp add: mass_plan_def logged_def)
  qed
qed

theorem load_snapshot_mass_resolution_witness:
  "(\<exists>w'. load_snapshot cfg_gas snap_two 0 0 (fresh_world (replicate 7 roomy)) = (Returned 2, w')
      \<and> MASS_reads w' = []
      \<and> (\<exists>m. Mass (P w') = Some m \<and> m ! 0 = 13421773 / 134217728
             \<and> m ! 1 = 13421773 / 134217728))
   \<and> (\<exists>w'. load_snapshot cfg_gas snap_disk 0 0 (fresh_world (replicate 7 roomy)) = (Returned 2, w')
      \<and> MASS_reads w' = [(''MASS'', 2, 0, 60)]
      \<and> \<not> bit (60 :: int) 1 \<and> \<not> bit (60 :: int) 0 \<and> bit (60 :: int) 2)"
proof
  have t: "PARTTYPE cfg_gas < N_TYPE" by (simp add: cfg_gas_def N_TYPE_def)
  have n: "resolve_NumPart cfg_gas snap_two 0 0 = 2"
    by (simp add: resolve_NumPart_def cfg_gas_def snap_two_def)
  have z: "mass (GetHeader snap_two) (PARTTYPE cfg_gas) = double_tenth"
    by (simp add: snap_two_def hdr_today_def cfg_gas_def)
  have nz: "double_tenth \<noteq> 0" and rg: "\<bar>double_tenth\<bar> \<le> float_max"
    by (simp_all add: double_tenth_def float_max_def)
  from run_two obtain w' where
    l: "load_snapshot cfg_gas snap_two 0 0 (fresh_world (replicate 7 roomy)) = (Returned 2, w')"
    by blast
  from load_snapshot_mass_resolution [OF l t] n z nz rg
  have "MASS_reads w' = MASS_reads (fresh_world (replicate 7 roomy))"
    "\<exists>m. Mass (P w') = Some m \<and> (\<forall>i<nat 2. i < length m \<and> m ! i = to_float double_tenth)"
    by simp_all
  then have "MASS_reads w' = []"
    "\<exists>m. Mass (P w') = Some m \<and> m ! 0 = 13421773 / 134217728 \<and> m ! 1 = 13421773 / 134217728"
    by (auto simp: MASS_reads_def fresh_world_def to_float_double_tenth)
  with l show "\<exists>w'. load_snapshot cfg_gas snap_two 0 0 (fresh_world (replicate 7 roomy))
        = (Returned 2, w') \<and> MASS_reads w' = []
      \<and> (\<exists>m. Mass (P w') = Some m \<and> m ! 0 = 13421773 / 134217728
             \<and> m ! 1 = 13421773 / 134217728)"
    by blast
next
  have t: "PARTTYPE cfg_gas < N_TYPE" by (simp add: cfg_gas_def N_TYPE_def)
  have n: "resolve_NumPart cfg_gas snap_disk 0 0 = 2"
    by (simp add: resolve_NumPart_def cfg_gas_def snap_disk_def snap_two_def)
  have z: "mass (GetHeader snap_disk) (PARTTYPE cfg_gas) = 0"
    by (simp add: snap_disk_def hdr_disk_def cfg_gas_def)
  have k: "mass_skip cfg_gas (GetHeader snap_disk) = 60" by code_simp
  from run_disk obtain w' where
    l: "load_snapshot cfg_gas snap_disk 0 0 (fresh_world (replicate 7 roomy)) = (Returned 2, w')"
    by blast
  from load_snapshot_mass_resolution [OF l t] n z k
  have "MASS_reads w' = MASS_reads (fresh_world (replicate 7 roomy)) @ [(''MASS'', 2, 0, 60)]"
    "\<forall>i. bit (60 :: int) i \<longleftrightarrow> i < N_TYPE \<and> i \<noteq> PARTTYPE cfg_gas \<and> mass (GetHeader snap_disk) i = 0"
    by simp_all
  then have "MASS_reads w' = [(''MASS'', 2, 0, 60)]"
    "\<not> bit (60 :: int) 1 \<and> \<not> bit (60 :: int) 0 \<and> bit (60 :: int) 2"
    by (simp_all add: MASS_reads_def fresh_world_def N_TYPE_def cfg_gas_def snap_disk_def
          hdr_disk_def)
  with l show "\<exists>w'. load_snapshot cfg_gas snap_disk 0 0 (fresh_world (replicate 7 roomy))
        = (Returned 2, w') \<and> MASS_reads w' = [(''MASS'', 2, 0, 60)]
      \<and> \<not> bit (60 :: int) 1 \<and> \<not> bit (60 :: int) 0 \<and> bit (60 :: int) 2"
    by blast
qed

text \<open>C4.  For a positive resolved count, when the call neither fails to allocate nor leaves
  an array: it ends with \<^verbatim>\<open>exit(0)\<close> in the uniformity check exactly when the mass of some
  particle of the window differs from the mass of the first; otherwise it returns the count,
  and all masses of the window in the returned buffer equal entry 0.\<close>

theorem load_snapshot_mass_uniform:
  assumes n: "0 < resolve_NumPart cfg snap S M"
    and l: "load_snapshot cfg snap S M w = (r, w')"
    and r: "r \<noteq> Exited 1" "r \<noteq> Fault"
  shows "\<exists>m. Mass (P w') = Some m
    \<and> (r = Exited 0 \<longleftrightarrow>
         (\<exists>i<nat (resolve_NumPart cfg snap S M). i < length m \<and> m ! i \<noteq> m ! 0))
    \<and> (r \<noteq> Exited 0 \<longrightarrow>
         r = Returned (resolve_NumPart cfg snap S M)
         \<and> nat (resolve_NumPart cfg snap S M) \<le> length m
         \<and> (\<forall>i<nat (resolve_NumPart cfg snap S M). m ! i = m ! 0))"
proof (cases rule: load_snapshot_cases [of cfg snap S M w])
  case zero
  with n show ?thesis by simp
next
  case (nomem w1)
  with l r show ?thesis by simp
next
  case (stopped w1 r' w'')
  with l r have e: "r = Exited 0" and b: "load_blocks cfg snap S (resolve_NumPart cfg snap S M) w1
      = Inl (Exited 0, w')" by auto
  from b obtain wa wb where
    "check_and_omegab snap (resolve_NumPart cfg snap S M) w' = Inl (Exited 0, w')"
    by (rule load_blocks_Exited)
  from check_and_omegab_Exited [OF this] obtain m i where "Mass (P w') = Some m"
    "i \<in> set (loop_indices (resolve_NumPart cfg snap S M))" "i < length m" "m ! i \<noteq> m ! 0"
    by blast
  with e loop_indices_lt show ?thesis by blast
next
  case (returned w1 w'')
  with l have l': "load_snapshot cfg snap S M w = (Returned (resolve_NumPart cfg snap S M), w')"
    and e: "r = Returned (resolve_NumPart cfg snap S M)" by simp_all
  from load_snapshot_Returned [OF l' n] obtain m where
    "Mass (P w') = Some m" "nat (resolve_NumPart cfg snap S M) \<le> length m"
    "\<forall>i<nat (resolve_NumPart cfg snap S M). m ! i = m ! 0"
    by blast
  with e show ?thesis by blast
qed

theorem load_snapshot_mass_uniform_witness:
  "0 < resolve_NumPart cfg_gas snap_two 0 0
   \<and> fst (load_snapshot cfg_gas snap_two 0 0 (fresh_world (replicate 7 roomy))) = Returned 2
   \<and> (\<exists>m. Mass (P (snd (load_snapshot cfg_gas snap_two 0 0 (fresh_world (replicate 7 roomy)))))
            = Some m \<and> 2 \<le> length m \<and> (\<forall>i<2. m ! i = m ! 0))"
proof -
  have n: "resolve_NumPart cfg_gas snap_two 0 0 = 2"
    by (simp add: resolve_NumPart_def cfg_gas_def snap_two_def)
  from run_two obtain w' where
    l: "load_snapshot cfg_gas snap_two 0 0 (fresh_world (replicate 7 roomy)) = (Returned 2, w')"
    by blast
  from load_snapshot_mass_uniform [OF _ l] n l show ?thesis by auto
qed

text \<open>C5, as stated, fails: with stored masses that change after the fiftieth particle, the two
  half windows load, while the single call for \<open>[0, 100)\<close> ends in the uniformity check and
  delivers nothing.\<close>

theorem load_snapshot_pagination_counterexample:
  "GetNpart snap_hundred (PARTTYPE cfg_gas) = 100
   \<and> fst (load_snapshot cfg_gas snap_hundred 0 50 (fresh_world (replicate 7 roomy))) = Returned 50
   \<and> fst (load_snapshot cfg_gas snap_hundred 50 50 (fresh_world (replicate 7 roomy))) = Returned 50
   \<and> fst (load_snapshot cfg_gas snap_hundred 0 100 (fresh_world (replicate 7 roomy))) = Exited 0"
proof -
  let ?w = "fresh_world (replicate 7 roomy)"
  have np: "GetNpart snap_hundred (PARTTYPE cfg_gas) = 100"
    by (simp add: snap_hundred_def cfg_gas_def)
  from np have rA: "resolve_NumPart cfg_gas snap_hundred 0 50 = 50"
    and rB: "resolve_NumPart cfg_gas snap_hundred 50 50 = 50"
    and rF: "resolve_NumPart cfg_gas snap_hundred 0 100 = 100"
    by (simp_all add: resolve_NumPart_def)
  have n: "(0::int) < 50" "(50::int) < 536870912" "(0::int) < 100" "(100::int) < 536870912"
    by simp_all
  have rd: "GetBlock snap_hundred = block_slice disk_hundred" by (simp add: snap_hundred_def)
  have gas: "PARTTYPE cfg_gas = 0" by (simp add: cfg_gas_def)
  have fA: "full_reads cfg_gas snap_hundred 0 50" by (rule full_hundred [OF rd gas]) simp_all
  have fB: "full_reads cfg_gas snap_hundred 50 50" by (rule full_hundred [OF rd gas]) simp_all
  have fF: "full_reads cfg_gas snap_hundred 0 100" by (rule full_hundred [OF rd gas]) simp_all
  have mA: "mass_data cfg_gas snap_hundred 0 50 = replicate 50 1" by code_simp
  have mB: "mass_data cfg_gas snap_hundred 50 50 = replicate 50 2" by code_simp
  have mF: "mass_data cfg_gas snap_hundred 0 100 = replicate 50 1 @ replicate 50 2" by code_simp
  have uA: "\<forall>i<nat 50. mass_data cfg_gas snap_hundred 0 50 ! i = mass_data cfg_gas snap_hundred 0 50 ! 0"
    unfolding mA by simp
  have uB: "\<forall>i<nat 50. mass_data cfg_gas snap_hundred 50 50 ! i = mass_data cfg_gas snap_hundred 50 50 ! 0"
    unfolding mB by simp
  have "(replicate 50 (1::real) @ replicate 50 2) ! 50 \<noteq> (replicate 50 1 @ replicate 50 2) ! 0"
    by (simp add: nth_append)
  then have uF: "\<not> (\<forall>i<nat 100. mass_data cfg_gas snap_hundred 0 100 ! i
      = mass_data cfg_gas snap_hundred 0 100 ! 0)"
    unfolding mF by (intro notI) (drule spec [of _ 50], simp)
  have g50: "fst (alloc_parts cfg_gas (to_int32 50) (header_scalars snap_hundred ?w))"
    by (rule grants_small) simp_all
  have g100: "fst (alloc_parts cfg_gas (to_int32 100) (header_scalars snap_hundred ?w))"
    by (rule grants_small) simp_all
  from load_snapshot_run [OF rA n(1) n(2) g50 fA]
  have A: "fst (load_snapshot cfg_gas snap_hundred 0 50 ?w) = Returned 50"
    unfolding if_P [OF uA] by auto
  from load_snapshot_run [OF rB n(1) n(2) g50 fB]
  have B: "fst (load_snapshot cfg_gas snap_hundred 50 50 ?w) = Returned 50"
    unfolding if_P [OF uB] by auto
  from load_snapshot_run [OF rF n(3) n(4) g100 fF]
  have F: "fst (load_snapshot cfg_gas snap_hundred 0 100 ?w) = Exited 0"
    unfolding if_not_P [OF uF] by auto
  from np A B F show ?thesis by simp
qed

text \<open>C5, as amended.  For a snapshot with 100 particles of the type whose reader slices
  stored blocks: if the single call for the window \<open>[0, 100)\<close> returns, with every block
  it reads delivering the 100 particles, then the calls for \<open>[0, 50)\<close> and \<open>[50, 100)\<close>,
  unless their allocation fails, return 50 each, and every field that a load populates
  holds in the single call's buffer the first call's values followed by the second's.\<close>

theorem load_snapshot_pagination:
  assumes rd: "GetBlock snap = block_slice disk"
    and np: "GetNpart snap (PARTTYPE cfg) = 100"
    and F: "load_snapshot cfg snap 0 100 wF = (Returned 100, wF')"
    and full: "full_reads cfg snap 0 100"
    and A: "load_snapshot cfg snap 0 50 wA = (rA, wA')" "rA \<noteq> Exited 1"
    and B: "load_snapshot cfg snap 50 50 wB = (rB, wB')" "rB \<noteq> Exited 1"
  shows "rA = Returned 50 \<and> rB = Returned 50
    \<and> (\<forall>s\<in>populated cfg (GetHeader snap).
          \<exists>a b. field_of wA' s = Some a \<and> field_of wB' s = Some b
                \<and> field_of wF' s = Some (a @ b))"
proof -
  have n100: "(0::int) < 100" "(100::int) < 536870912"
    and n50: "(0::int) < 50" "(50::int) < 536870912" by simp_all
  note ff = load_snapshot_full_fields [OF F n100 full]
  from ff have uF: "\<forall>i<nat 100. mass_data cfg snap 0 100 ! i = mass_data cfg snap 0 100 ! 0"
    by (rule conjunct1)
  from ff have fF: "\<forall>s\<in>populated cfg (GetHeader snap).
               field_of wF' s = Some (field_data cfg snap 0 100 s)"
    by (rule conjunct2)
  note fh = full_reads_halves [OF rd full]
  have ms: "Mass_slot \<in> populated cfg (GetHeader snap)" by (simp add: populated_def)
  from field_data_split [OF rd full ms]
  have m: "mass_data cfg snap 0 100 = mass_data cfg snap 0 50 @ mass_data cfg snap 50 50" by simp
  have e: "nat 100 = nat 50 + nat 50" by simp
  have "0 < nat 50" by simp
  note uh = uniform_halves [OF uF [unfolded e] m full_reads_mass_data [OF fh(1)]
      full_reads_mass_data [OF fh(2)] this]
  from np have rA: "resolve_NumPart cfg snap 0 50 = 50" and rB: "resolve_NumPart cfg snap 50 50 = 50"
    by (simp_all add: resolve_NumPart_def)
  note ra = load_snapshot_returns [OF A rA n50 fh(1) uh(1)]
  from ra have a: "rA = Returned 50"
    "\<forall>s\<in>populated cfg (GetHeader snap). field_of wA' s = Some (field_data cfg snap 0 50 s)"
    by blast+
  note rb = load_snapshot_returns [OF B rB n50 fh(2) uh(2)]
  from rb have b: "rB = Returned 50"
    "\<forall>s\<in>populated cfg (GetHeader snap). field_of wB' s = Some (field_data cfg snap 50 50 s)"
    by blast+
  have "\<exists>a b. field_of wA' s = Some a \<and> field_of wB' s = Some b \<and> field_of wF' s = Some (a @ b)"
    if s: "s \<in> populated cfg (GetHeader snap)" for s
    using a(2) b(2) fF field_data_split [OF rd full s] s by simp
  with a(1) b(1) show ?thesis by blast
qed

theorem load_snapshot_pagination_witness:
  "\<exists>wF' wA' wB'.
     load_snapshot cfg_gas snap_hundred_uniform 0 100 (fresh_world (replicate 7 roomy))
       = (Returned 100, wF')
     \<and> load_snapshot cfg_gas snap_hundred_uniform 0 50 (fresh_world (replicate 7 roomy))
       = (Returned 50, wA')
     \<and> load_snapshot cfg_gas snap_hundred_uniform 50 50 (fresh_world (replicate 7 roomy))
       = (Returned 50, wB')
     \<and> (\<exists>a b. field_of wA' Pos_slot = Some a \<and> field_of wB' Pos_slot = Some b
            \<and> field_of wF' Pos_slot = Some (a @ b))
     \<and> (\<exists>a b. field_of wA' Ne_slot = Some a \<and> field_of wB' Ne_slot = Some b
            \<and> field_of wF' Ne_slot = Some (a @ b))"
proof -
  let ?w = "fresh_world (replicate 7 roomy)"
  let ?s = snap_hundred_uniform
  have rd: "GetBlock ?s = block_slice disk_hundred"
    by (simp add: snap_hundred_uniform_def snap_hundred_def)
  have np: "GetNpart ?s (PARTTYPE cfg_gas) = 100"
    by (simp add: snap_hundred_uniform_def snap_hundred_def cfg_gas_def)
  from np have rA: "resolve_NumPart cfg_gas ?s 0 50 = 50"
    and rB: "resolve_NumPart cfg_gas ?s 50 50 = 50"
    and rF: "resolve_NumPart cfg_gas ?s 0 100 = 100"
    by (simp_all add: resolve_NumPart_def)
  have n: "(0::int) < 50" "(50::int) < 536870912" "(0::int) < 100" "(100::int) < 536870912"
    by simp_all
  have gas: "PARTTYPE cfg_gas = 0" by (simp add: cfg_gas_def)
  have fF: "full_reads cfg_gas ?s 0 100" by (rule full_hundred [OF rd gas]) simp_all
  note fh = full_reads_halves [OF rd fF]
  have hm: "mass (GetHeader ?s) (PARTTYPE cfg_gas) \<noteq> 0"
    by (simp add: snap_hundred_uniform_def hdr_today_def double_tenth_def cfg_gas_def)
  note u = uniform_header_mass [OF hm]
  have g50: "fst (alloc_parts cfg_gas (to_int32 50) (header_scalars ?s ?w))"
    by (rule grants_small) simp_all
  have g100: "fst (alloc_parts cfg_gas (to_int32 100) (header_scalars ?s ?w))"
    by (rule grants_small) simp_all
  from load_snapshot_run [OF rF n(3) n(4) g100 fF] obtain wF' where
    F: "load_snapshot cfg_gas ?s 0 100 ?w = (Returned 100, wF')"
    unfolding if_P [OF u] by blast
  from load_snapshot_run [OF rA n(1) n(2) g50 fh(1)] obtain wA' where
    A: "load_snapshot cfg_gas ?s 0 50 ?w = (Returned 50, wA')"
    unfolding if_P [OF u] by blast
  from load_snapshot_run [OF rB n(1) n(2) g50 fh(2)] obtain wB' where
    B: "load_snapshot cfg_gas ?s 50 50 ?w = (Returned 50, wB')"
    unfolding if_P [OF u] by blast
  have p: "Pos_slot \<in> populated cfg_gas (GetHeader ?s)" "Ne_slot \<in> populated cfg_gas (GetHeader ?s)"
    by (simp_all add: populated_def cfg_gas_def snap_hundred_uniform_def hdr_today_def)
  from load_snapshot_pagination [OF rd np F fF A _ B] p
  have "(\<exists>a b. field_of wA' Pos_slot = Some a \<and> field_of wB' Pos_slot = Some b
            \<and> field_of wF' Pos_slot = Some (a @ b))
     \<and> (\<exists>a b. field_of wA' Ne_slot = Some a \<and> field_of wB' Ne_slot = Some b
            \<and> field_of wF' Ne_slot = Some (a @ b))"
    by blast
  with F A B show ?thesis by blast
qed

text \<open>C6.  However the call ends, the Hubble rate written is
  \<open>100 h100 sqrt(1 + Omega0 (1/a - 1) + OmegaLambda (a\<^sup>2 - 1)) / a\<close> on the header's values;
  for \<open>a = 1\<close>, \<open>Omega0 = 0.3\<close>, \<open>OmegaLambda = 0.7\<close>, \<open>h100 = 0.7\<close> it is 70.\<close>

theorem load_snapshot_Hz:
  "Hz (snd (load_snapshot cfg snap S M w)) =
     100 * HubbleParam (GetHeader snap)
       * sqrt (1 + Omega0 (GetHeader snap) * (1 / time (GetHeader snap) - 1)
                 + OmegaLambda (GetHeader snap) * ((time (GetHeader snap))\<^sup>2 - 1))
       / time (GetHeader snap)
   \<and> (time (GetHeader snap) = 1 \<and> Omega0 (GetHeader snap) = 3 / 10
        \<and> OmegaLambda (GetHeader snap) = 7 / 10 \<and> HubbleParam (GetHeader snap) = 7 / 10
      \<longrightarrow> Hz (snd (load_snapshot cfg snap S M w)) = 70)"
proof -
  from header_outputs_load_snapshot [of cfg snap S M w]
  have "Hz (snd (load_snapshot cfg snap S M w)) =
     100 * HubbleParam (GetHeader snap)
       * sqrt (1 + Omega0 (GetHeader snap) * (1 / time (GetHeader snap) - 1)
                 + OmegaLambda (GetHeader snap) * ((time (GetHeader snap))\<^sup>2 - 1))
       / time (GetHeader snap)"
    unfolding header_outputs_header_scalars by (simp add: header_outputs_def)
  then show ?thesis by simp
qed

theorem load_snapshot_Hz_witness:
  "Hz (snd (load_snapshot cfg_gas snap_two 0 0 (fresh_world (replicate 7 roomy)))) = 70"
  using load_snapshot_Hz [of cfg_gas snap_two 0 0 "fresh_world (replicate 7 roomy)"]
  by (simp add: snap_two_def hdr_today_def)

text \<open>C7.  After a call that returns a positive count, the baryon fraction written is
  \<open>Mass[0] / (Mass[0] + mass[1]) * Omega0\<close>, with \<open>Mass[0]\<close> the first entry of the
  returned mass array and \<open>mass[1]\<close>, \<open>Omega0\<close> from the header; for \<open>Mass[0] = 0.1\<close>,
  \<open>mass[1] = 0.9\<close> and \<open>Omega0 = 0.3\<close> it is 0.03.\<close>

theorem load_snapshot_omegab:
  assumes "load_snapshot cfg snap S M w = (Returned n, w')" "0 < n"
  shows "\<exists>m. Mass (P w') = Some m \<and> m \<noteq> []
    \<and> omegab w' = m ! 0 / (m ! 0 + mass (GetHeader snap) 1) * Omega0 (GetHeader snap)
    \<and> (m ! 0 = 1 / 10 \<and> mass (GetHeader snap) 1 = 9 / 10 \<and> Omega0 (GetHeader snap) = 3 / 10
         \<longrightarrow> omegab w' = 3 / 100)"
proof -
  from load_snapshot_Returned [OF assms] obtain m where
    m: "Mass (P w') = Some m" "nat n \<le> length m"
       "omegab w' = m ! 0 / (m ! 0 + mass (GetHeader snap) 1) * Omega0 (GetHeader snap)"
    by blast
  from m(2) assms(2) have ne: "m \<noteq> []" by auto
  have "omegab w' = 3 / 100"
    if "m ! 0 = 1 / 10" "mass (GetHeader snap) 1 = 9 / 10" "Omega0 (GetHeader snap) = 3 / 10"
    using m(3) unfolding that by simp
  with m ne show ?thesis by blast
qed

theorem load_snapshot_omegab_witness:
  "\<exists>w'. load_snapshot cfg_gas snap_disk 0 0 (fresh_world (replicate 7 roomy)) = (Returned 2, w')
     \<and> Mass (P w') = Some [1 / 10, 1 / 10] \<and> omegab w' = 3 / 100"
proof -
  from run_disk obtain w' where
    r: "load_snapshot cfg_gas snap_disk 0 0 (fresh_world (replicate 7 roomy)) = (Returned 2, w')"
    and f: "\<forall>s\<in>populated cfg_gas (GetHeader snap_disk).
              field_of w' s = Some (field_data cfg_gas snap_disk 0 2 s)" by blast
  have md: "mass_data cfg_gas snap_disk 0 2 = [1 / 10, 1 / 10]" by code_simp
  from f have "field_of w' Mass_slot = Some (mass_data cfg_gas snap_disk 0 2)"
    by (simp add: populated_def)
  with md have m: "Mass (P w') = Some [1 / 10, 1 / 10]"
    by (simp add: field_of_def)
  from load_snapshot_omegab [OF r] m have "omegab w' = 3 / 100"
    by (simp add: snap_disk_def snap_two_def hdr_disk_def hdr_today_def)
  with r m show ?thesis by blast
qed

text \<open>C8.  For the gas type with the cooling flag set, in the build that reads the three
  sub-species blocks, after a call that returns a positive count the electron fraction of
  each particle \<open>k\<close> of the window that the three blocks delivered is
  \<open>NHP[k] + NHEP[k] + 2 NHEQ[k]\<close>; for the values 0.1, 0.05 and 0.02 it is 0.19.\<close>

theorem load_snapshot_Ne:
  assumes l: "load_snapshot cfg snap S M w = (Returned n, w')" and n: "0 < n"
    and gas: "PARTTYPE cfg = 0" and cool: "flag_cooling (GetHeader snap) \<noteq> 0"
    and fmt: "\<not> GADGET3 cfg"
  shows "\<exists>ne. Ne (P w') = Some ne
    \<and> (\<forall>k<nat n. k < length ne
          \<and> (k < length (GetBlock snap ''NHP '' n S 0) \<and> k < length (GetBlock snap ''NHEP'' n S 0)
               \<and> k < length (GetBlock snap ''NHEQ'' n S 0)
             \<longrightarrow> ne ! k = GetBlock snap ''NHP '' n S 0 ! k + GetBlock snap ''NHEP'' n S 0 ! k
                            + 2 * GetBlock snap ''NHEQ'' n S 0 ! k
                 \<and> (GetBlock snap ''NHP '' n S 0 ! k = 1 / 10
                      \<and> GetBlock snap ''NHEP'' n S 0 ! k = 5 / 100
                      \<and> GetBlock snap ''NHEQ'' n S 0 ! k = 2 / 100 \<longrightarrow> ne ! k = 19 / 100)))"
proof (cases rule: load_snapshot_cases [of cfg snap S M w])
  case zero
  with l n show ?thesis by simp
next
  case (nomem w1)
  with l show ?thesis by simp
next
  case (stopped w1 r w'')
  with l show ?thesis by auto
next
  case (returned w1 w'')
  with l have "load_blocks cfg snap S n w1 = Inr w'" by simp
  then obtain wa wb wc w4 where g: "load_gas cfg snap S n w4 = Inr w'"
    by (rule load_blocks_Inr)
  from load_gas_Ne [OF g n gas cool fmt] obtain ne where
    ne: "Ne (P w') = Some ne" and
    v: "\<forall>k<nat n. k < length ne
          \<and> (k < length (GetBlock snap ''NHP '' n S 0) \<and> k < length (GetBlock snap ''NHEP'' n S 0)
               \<and> k < length (GetBlock snap ''NHEQ'' n S 0)
             \<longrightarrow> ne ! k = GetBlock snap ''NHP '' n S 0 ! k + GetBlock snap ''NHEP'' n S 0 ! k
                            + 2 * GetBlock snap ''NHEQ'' n S 0 ! k)"
    by blast
  have "ne ! k = 19 / 100"
    if "ne ! k = GetBlock snap ''NHP '' n S 0 ! k + GetBlock snap ''NHEP'' n S 0 ! k
                   + 2 * GetBlock snap ''NHEQ'' n S 0 ! k"
      "GetBlock snap ''NHP '' n S 0 ! k = 1 / 10" "GetBlock snap ''NHEP'' n S 0 ! k = 5 / 100"
      "GetBlock snap ''NHEQ'' n S 0 ! k = 2 / 100" for k
    unfolding that by simp
  with ne v show ?thesis by blast
qed

theorem load_snapshot_Ne_witness:
  "\<exists>w' ne. load_snapshot cfg_gas snap_two 0 0 (fresh_world (replicate 7 roomy)) = (Returned 2, w')
     \<and> Ne (P w') = Some ne \<and> ne ! 0 = 19 / 100 \<and> ne ! 1 = 19 / 100"
proof -
  from run_two obtain w' where
    l: "load_snapshot cfg_gas snap_two 0 0 (fresh_world (replicate 7 roomy)) = (Returned 2, w')"
    by blast
  have a: "GetBlock snap_two ''NHP '' 2 0 0 = [1 / 10, 1 / 10]"
    and b: "GetBlock snap_two ''NHEP'' 2 0 0 = [5 / 100, 5 / 100]"
    and c: "GetBlock snap_two ''NHEQ'' 2 0 0 = [2 / 100, 2 / 100]"
    by code_simp+
  have g: "PARTTYPE cfg_gas = 0" "flag_cooling (GetHeader snap_two) \<noteq> 0" "\<not> GADGET3 cfg_gas"
    by (simp_all add: cfg_gas_def snap_two_def hdr_today_def)
  from load_snapshot_Ne [OF l _ g] obtain ne where
    ne: "Ne (P w') = Some ne" and
    v: "\<forall>k<nat 2. k < length ne
          \<and> (k < length (GetBlock snap_two ''NHP '' 2 0 0)
               \<and> k < length (GetBlock snap_two ''NHEP'' 2 0 0)
               \<and> k < length (GetBlock snap_two ''NHEQ'' 2 0 0)
             \<longrightarrow> ne ! k = GetBlock snap_two ''NHP '' 2 0 0 ! k + GetBlock snap_two ''NHEP'' 2 0 0 ! k
                            + 2 * GetBlock snap_two ''NHEQ'' 2 0 0 ! k
                 \<and> (GetBlock snap_two ''NHP '' 2 0 0 ! k = 1 / 10
                      \<and> GetBlock snap_two ''NHEP'' 2 0 0 ! k = 5 / 100
                      \<and> GetBlock snap_two ''NHEQ'' 2 0 0 ! k = 2 / 100 \<longrightarrow> ne ! k = 19 / 100))"
    by auto
  from v [rule_format, of 0] v [rule_format, of 1] have "ne ! 0 = 19 / 100" "ne ! 1 = 19 / 100"
    unfolding a b c by simp_all
  with l ne show ?thesis by blast
qed

text \<open>C9.  \<^verbatim>\<open>alloc_parts\<close> reports failure exactly when one of the requests it made was
  refused, and success exactly when it made every request of its chain (velocity, position,
  mass, internal energy, neutral hydrogen, electron fraction, the helium field when compiled
  in, smoothing length) and each was granted; after success every one of these fields
  points to an array.\<close>

theorem alloc_parts_all_or_nothing:
  assumes "alloc_parts cfg np w = (ok, w')"
  shows "\<exists>log. mallocs w' = mallocs w @ log
           \<and> (\<not> ok \<longleftrightarrow> (\<exists>e\<in>set log. \<not> snd e))
           \<and> (ok \<longleftrightarrow> map fst log = map snd (alloc_requests cfg np) \<and> (\<forall>e\<in>set log. snd e))
           \<and> (ok \<longrightarrow> (\<forall>s. (s = NHep_slot \<longrightarrow> HELIUM cfg) \<longrightarrow> sel s (P w') \<noteq> None))"
proof -
  let ?rs = "alloc_requests cfg np"
  from assms have c: "alloc_chain ?rs w = (ok, w')" by (simp add: alloc_parts_def)
  from alloc_chain_log [OF c] obtain log where
    l: "mallocs w' = mallocs w @ log" "map fst log = take (length log) (map snd ?rs)"
       "ok \<longleftrightarrow> length log = length ?rs \<and> (\<forall>e\<in>set log. snd e)"
       "\<not> ok \<longleftrightarrow> (\<exists>e\<in>set log. \<not> snd e)" by blast
  have eq: "length log = length ?rs \<longleftrightarrow> map fst log = map snd ?rs"
  proof
    assume "length log = length ?rs"
    with l(2) show "map fst log = map snd ?rs" by simp
  next
    assume "map fst log = map snd ?rs"
    then have "length (map fst log) = length (map snd ?rs)" by simp
    then show "length log = length ?rs" by simp
  qed
  have got: "sel s (P w') \<noteq> None" if "ok" "s = NHep_slot \<longrightarrow> HELIUM cfg" for s
  proof -
    from that c have "alloc_chain ?rs w = (True, w')" by simp
    from alloc_chain_slots [OF this distinct_alloc_requests]
    have sl: "\<forall>e\<in>set ?rs. \<exists>v. sel (fst e) (P w') = Some (replicate (snd e div 4) v)" by blast
    from that(2) have "s \<in> fst ` set ?rs"
      by (cases s) (simp_all add: alloc_requests_def)
    with sl show ?thesis by fastforce
  qed
  from l(1) l(3) l(4) eq got show ?thesis by blast
qed

theorem alloc_parts_all_or_nothing_witness:
  "\<exists>w'. alloc_parts cfg_gas 2 (fresh_world (replicate 7 roomy)) = (True, w')
     \<and> (\<forall>s. s \<noteq> NHep_slot \<longrightarrow> sel s (P w') \<noteq> None)
     \<and> map fst (mallocs w') = [24, 24, 8, 8, 8, 8, 8] \<and> (\<forall>e\<in>set (mallocs w'). snd e)"
proof -
  let ?w = "fresh_world (replicate 7 roomy)"
  have "fst (alloc_parts cfg_gas 2 ?w)"
    by (rule alloc_parts_grants)
       (simp_all add: alloc_requests_def cfg_gas_def fresh_world_def roomy_def
          bytes3_def bytes1_def to_int32_id)
  then obtain w' where a: "alloc_parts cfg_gas 2 ?w = (True, w')"
    by (cases "alloc_parts cfg_gas 2 ?w") auto
  from alloc_parts_all_or_nothing [OF a] obtain log where
    "mallocs w' = mallocs ?w @ log"
    "map fst log = map snd (alloc_requests cfg_gas 2) \<and> (\<forall>e\<in>set log. snd e)"
    "\<forall>s. (s = NHep_slot \<longrightarrow> HELIUM cfg_gas) \<longrightarrow> sel s (P w') \<noteq> None"
    by auto
  with a show ?thesis
    by (auto simp: alloc_requests_def cfg_gas_def fresh_world_def bytes3_def bytes1_def to_int32_id)
qed

text \<open>C10.  When the resolved count is 0, the start index is the particle count of the type,
  and the call returns 0 in a state that differs from the initial one in exactly the five
  header-derived scalars (expansion factor, redshift, box size, h100, Hubble rate): the baryon
  fraction, the buffer \<open>P\<close> and the allocation and read logs are as before.\<close>

theorem load_snapshot_empty_window:
  assumes "resolve_NumPart cfg snap S M = 0"
  shows "S = GetNpart snap (PARTTYPE cfg)
    \<and> load_snapshot cfg snap S M w =
        (Returned 0,
         w\<lparr>atime := time (GetHeader snap), redshift_out := redshift (GetHeader snap),
           box100 := BoxSize (GetHeader snap), h100 := HubbleParam (GetHeader snap),
           Hz := 100 * HubbleParam (GetHeader snap)
                   * sqrt (1 + Omega0 (GetHeader snap) * (1 / time (GetHeader snap) - 1)
                             + OmegaLambda (GetHeader snap) * ((time (GetHeader snap))\<^sup>2 - 1))
                   / time (GetHeader snap)\<rparr>)
    \<and> omegab (snd (load_snapshot cfg snap S M w)) = omegab w
    \<and> P (snd (load_snapshot cfg snap S M w)) = P w
    \<and> mallocs (snd (load_snapshot cfg snap S M w)) = mallocs w
    \<and> reads (snd (load_snapshot cfg snap S M w)) = reads w"
  using assms
  by (simp add: resolve_zero load_snapshot_def Let_def header_scalars_def)

theorem load_snapshot_empty_window_witness:
  "resolve_NumPart cfg_gas snap_two 2 0 = 0
   \<and> fst (load_snapshot cfg_gas snap_two 2 0 (fresh_world [])) = Returned 0
   \<and> atime (snd (load_snapshot cfg_gas snap_two 2 0 (fresh_world []))) = 1
   \<and> box100 (snd (load_snapshot cfg_gas snap_two 2 0 (fresh_world []))) = 60
   \<and> omegab (snd (load_snapshot cfg_gas snap_two 2 0 (fresh_world []))) = 0
   \<and> P (snd (load_snapshot cfg_gas snap_two 2 0 (fresh_world []))) = no_parts"
proof -
  have r: "resolve_NumPart cfg_gas snap_two 2 0 = 0"
    by (simp add: resolve_NumPart_def cfg_gas_def snap_two_def)
  from load_snapshot_empty_window [OF r, of "fresh_world []"] r show ?thesis
    by (simp add: fresh_world_def snap_two_def hdr_today_def)
qed

end
